theory Spec2Isabelle
  imports Main
begin

section \<open>Token kinds (lexer/token_type.py)\<close>

datatype TokenType =
    LEFT_PAREN | RIGHT_PAREN | LEFT_BRACE | RIGHT_BRACE | SEMI_COLON
  | PLUS | MINUS | MULTIPLY | DIVIDE | MODULUS | EXPONENT | COMMA | PERIOD
  | BANG | BANG_EQUAL | EQUAL | EQUAL_EQUAL
  | GREATER | GREATER_EQUAL | LESS | LESS_EQUAL
  | IDENTIFIER | STRING | NUMBER
  | AND | ELSE | ELSEIF | FALSE | LOOP | IF | OR | PRINT | INPUT | RETURN
  | TRUE | VAR | FUNCTION | FUNCTION_CALL | BREAK | CONTINUE
  | EOF

definition literal_types :: "TokenType set" where
  "literal_types = {NUMBER, STRING, TRUE, FALSE}"

definition valid_print_types :: "TokenType set" where
  "valid_print_types = {IDENTIFIER} \<union> literal_types"

definition operation_types :: "TokenType set" where
  "operation_types = {MULTIPLY, DIVIDE, PLUS, MINUS, MODULUS, EXPONENT, BANG, BANG_EQUAL,
     EQUAL_EQUAL, LESS, LESS_EQUAL, GREATER, GREATER_EQUAL, AND, OR}"

definition unary_operations :: "TokenType set" where
  "unary_operations = {BANG}"

definition valid_expression_types :: "TokenType set" where
  "valid_expression_types =
     valid_print_types \<union> operation_types \<union> {LEFT_PAREN, RIGHT_PAREN, COMMA, FUNCTION_CALL}"

definition if_statement_tokens :: "TokenType set" where
  "if_statement_tokens = {IF, ELSEIF, ELSE}"

text \<open>The text Python prints for an enum member inside an f-string, after the
  \<^verbatim>\<open>TokenType.\<close> prefix.\<close>

fun token_type_name :: "TokenType \<Rightarrow> string" where
  "token_type_name LEFT_PAREN = ''LEFT_PAREN''"
| "token_type_name RIGHT_PAREN = ''RIGHT_PAREN''"
| "token_type_name LEFT_BRACE = ''LEFT_BRACE''"
| "token_type_name RIGHT_BRACE = ''RIGHT_BRACE''"
| "token_type_name SEMI_COLON = ''SEMI_COLON''"
| "token_type_name PLUS = ''PLUS''"
| "token_type_name MINUS = ''MINUS''"
| "token_type_name MULTIPLY = ''MULTIPLY''"
| "token_type_name DIVIDE = ''DIVIDE''"
| "token_type_name MODULUS = ''MODULUS''"
| "token_type_name EXPONENT = ''EXPONENT''"
| "token_type_name COMMA = ''COMMA''"
| "token_type_name PERIOD = ''PERIOD''"
| "token_type_name BANG = ''BANG''"
| "token_type_name BANG_EQUAL = ''BANG_EQUAL''"
| "token_type_name EQUAL = ''EQUAL''"
| "token_type_name EQUAL_EQUAL = ''EQUAL_EQUAL''"
| "token_type_name GREATER = ''GREATER''"
| "token_type_name GREATER_EQUAL = ''GREATER_EQUAL''"
| "token_type_name LESS = ''LESS''"
| "token_type_name LESS_EQUAL = ''LESS_EQUAL''"
| "token_type_name IDENTIFIER = ''IDENTIFIER''"
| "token_type_name STRING = ''STRING''"
| "token_type_name NUMBER = ''NUMBER''"
| "token_type_name AND = ''AND''"
| "token_type_name ELSE = ''ELSE''"
| "token_type_name ELSEIF = ''ELSEIF''"
| "token_type_name FALSE = ''FALSE''"
| "token_type_name LOOP = ''LOOP''"
| "token_type_name IF = ''IF''"
| "token_type_name OR = ''OR''"
| "token_type_name PRINT = ''PRINT''"
| "token_type_name INPUT = ''INPUT''"
| "token_type_name RETURN = ''RETURN''"
| "token_type_name TRUE = ''TRUE''"
| "token_type_name VAR = ''VAR''"
| "token_type_name FUNCTION = ''FUNCTION''"
| "token_type_name FUNCTION_CALL = ''FUNCTION_CALL''"
| "token_type_name BREAK = ''BREAK''"
| "token_type_name CONTINUE = ''CONTINUE''"
| "token_type_name EOF = ''EOF''"

section \<open>Tokens, syntax-tree nodes, operation contexts, errors\<close>

text \<open>Modelled from the spec: the Token class is imported by the parser but its file is
  not part of the sources. The spec gives a token as an immutable record of kind, lexeme,
  literal value and source line; the parser reads it through the four getters below. The
  decoded literal value is opaque to the parser, hence a type parameter.\<close>

record 'v token =
  get_token_type :: TokenType
  get_lexeme :: string
  get_literal :: 'v
  get_line :: nat

text \<open>Modelled from the spec: the node classes of \<^verbatim>\<open>emolang.parser.nodes\<close> are imported
  by the parser but not part of the sources. Each constructor stores its arguments. A
  position where the parser can pass Python's \<^verbatim>\<open>None\<close> is an option.\<close>

datatype 'v node =
    BlockNode "'v node option list"
  | AssignmentNode "'v node" "'v node option"
  | PrintNode "'v node option"
  | IfNode "'v node option" "'v node" "'v node option"
  | ElseIfNode "'v node option" "'v node" "'v node option"
  | ElseNode "'v node option"
  | NumberLiteralNode 'v
  | StringLiteralNode 'v
  | BooleanLiteralNode bool
  | VariableNode string
  | NotNode "'v node"
  | AndNode "'v node" "'v node"
  | OrNode "'v node" "'v node"
  | EqualsNode "'v node" "'v node"
  | NotEqualsNode "'v node" "'v node"
  | LessNode "'v node" "'v node"
  | LessEqualsNode "'v node" "'v node"
  | GreaterNode "'v node" "'v node"
  | GreaterEqualsNode "'v node" "'v node"
  | AdditionNode "'v node" "'v node"
  | SubtractionNode "'v node" "'v node"
  | MultiplicationNode "'v node" "'v node"
  | DivisionNode "'v node" "'v node"
  | ModulusNode "'v node" "'v node"
  | ExponentNode "'v node" "'v node"

text \<open>Modelled from the spec: the operation contexts carry one operand (unary) or two
  (binary); asking a context for an operand it does not hold is an attribute error.\<close>

datatype 'v operation_context =
    UnaryOperationContext "'v node"
  | BinaryOperationContext "'v node" "'v node"

text \<open>Modelled from the spec: \<^verbatim>\<open>SyntaxException\<close> carries a source line and a message.
  The two other errors are the Python run-time errors the parser can raise: a list index
  out of range, and an attribute read on \<^verbatim>\<open>None\<close>.\<close>

datatype error =
    SyntaxException nat string
  | IndexError
  | AttributeError

text \<open>The outcome of a call: it ran out of fuel (the model of a call that has not
  returned yet), it raised, or it returned a value.\<close>

datatype 'a result = Timeout | Raise error | Return 'a

definition bind_result :: "'a result \<Rightarrow> ('a \<Rightarrow> 'b result) \<Rightarrow> 'b result" where
  "bind_result m f = (case m of Timeout \<Rightarrow> Timeout | Raise e \<Rightarrow> Raise e | Return x \<Rightarrow> f x)"

lemma bind_result_simps [simp]:
  "bind_result Timeout f = Timeout"
  "bind_result (Raise e) f = Raise e"
  "bind_result (Return x) f = f x"
  by (simp_all add: bind_result_def)

lemma bind_result_cong [fundef_cong]:
  "m = m' \<Longrightarrow> (\<And>x. m' = Return x \<Longrightarrow> f x = f' x) \<Longrightarrow> bind_result m f = bind_result m' f'"
  by (cases m') (simp_all add: bind_result_def)

section \<open>The emoji of the error messages, as UTF-8 bytes\<close>

definition emoji_print :: string where
  "emoji_print = [CHR 0xF0, CHR 0x9F, CHR 0x97, CHR 0xA3, CHR 0xEF, CHR 0xB8, CHR 0x8F]"

definition emoji_var :: string where
  "emoji_var = [CHR 0xF0, CHR 0x9F, CHR 0xA5, CHR 0xB8]"

definition emoji_assign :: string where
  "emoji_assign = [CHR 0xE2, CHR 0x9C, CHR 0x8D, CHR 0xEF, CHR 0xB8, CHR 0x8F]"

definition emoji_if :: string where
  "emoji_if = [CHR 0xF0, CHR 0x9F, CHR 0xA4, CHR 0x94]"

definition emoji_elseif :: string where
  "emoji_elseif = [CHR 0xF0, CHR 0x9F, CHR 0x99, CHR 0x88]"

definition emoji_else :: string where
  "emoji_else = [CHR 0xF0, CHR 0x9F, CHR 0x92, CHR 0x85]"

section \<open>Parser helpers that do not recurse into statements\<close>

text \<open>\<^verbatim>\<open>self._tokens[index]\<close>: a Python list read. A negative index counts from the end,
  an index outside \<open>[-len, len)\<close> raises.\<close>

definition retrieve_token :: "'v token list \<Rightarrow> int \<Rightarrow> 'v token result" where
  "retrieve_token ts index =
     (let n = int (length ts) in
      if 0 \<le> index \<and> index < n then Return (ts ! nat index)
      else if - n \<le> index \<and> index < 0 then Return (ts ! nat (n + index))
      else Raise IndexError)"

definition in_bounds :: "'v token list \<Rightarrow> int \<Rightarrow> bool" where
  "in_bounds ts index = (index < int (length ts))"

text \<open>\<^verbatim>\<open>_validate_token\<close>: returns the advanced cursor.\<close>

definition validate_token :: "'v token list \<Rightarrow> int \<Rightarrow> TokenType set \<Rightarrow> string \<Rightarrow> int result" where
  "validate_token ts cur valid_token_types error_message =
     bind_result (retrieve_token ts cur) (\<lambda>next_token.
       if get_token_type next_token \<notin> valid_token_types
       then Raise (SyntaxException (get_line next_token) error_message)
       else Return (cur + 1))"

definition parse_identifier_token :: "'v token list \<Rightarrow> int \<Rightarrow> 'v node result" where
  "parse_identifier_token ts index =
     bind_result (retrieve_token ts index) (\<lambda>identifier_token.
       Return (VariableNode (get_lexeme identifier_token)))"

text \<open>\<^verbatim>\<open>_find_end_of_expression_index\<close>: the loop, from a given index.\<close>

function find_end_of_expression_index :: "'v token list \<Rightarrow> int \<Rightarrow> int result" where
  "find_end_of_expression_index ts index =
     (case retrieve_token ts index of
        Return t \<Rightarrow>
          if get_token_type t \<in> valid_expression_types
          then find_end_of_expression_index ts (index + 1)
          else Return index
      | Raise e \<Rightarrow> Raise e
      | Timeout \<Rightarrow> Timeout)"
  by pat_completeness auto
termination
  by (relation "measure (\<lambda>(ts, index). nat (int (length ts) - index))")
     (auto simp: retrieve_token_def Let_def split: if_splits)

declare find_end_of_expression_index.simps [simp del]

text \<open>\<^verbatim>\<open>_find_parenthesis_count\<close>: the while loop, then the two checks.\<close>

function find_parenthesis_count_while ::
  "'v token list \<Rightarrow> int \<Rightarrow> int \<Rightarrow> int \<Rightarrow> (int \<times> int) result" where
  "find_parenthesis_count_while ts right_index paren_counter current_index =
     (if current_index \<le> right_index then
        (case retrieve_token ts current_index of
           Return t \<Rightarrow>
             (let c1 = (if get_token_type t = LEFT_PAREN then paren_counter + 1 else paren_counter);
                  c2 = (if get_token_type t = RIGHT_PAREN then c1 - 1 else c1)
              in if c2 = 0 then Return (c2, current_index)
                 else find_parenthesis_count_while ts right_index c2 (current_index + 1))
         | Raise e \<Rightarrow> Raise e
         | Timeout \<Rightarrow> Timeout)
      else Return (paren_counter, current_index))"
  by pat_completeness auto
termination
  by (relation "measure (\<lambda>(ts, r, c, i). nat (r + 1 - i))") auto

declare find_parenthesis_count_while.simps [simp del]

definition find_parenthesis_count :: "'v token list \<Rightarrow> int \<Rightarrow> int \<Rightarrow> (int \<times> int) result" where
  "find_parenthesis_count ts left_index right_index =
     bind_result (find_parenthesis_count_while ts right_index 0 left_index) (\<lambda>(paren_counter, current_index).
     bind_result (retrieve_token ts right_index) (\<lambda>t.
       if paren_counter > 0
       then Raise (SyntaxException (get_line t) ''Left parenthesis missing closing right.'')
       else if paren_counter < 0
       then Raise (SyntaxException (get_line t) ''Right parenthesis missing corresponding left.'')
       else Return (paren_counter, current_index)))"

definition within_parens :: "'v token list \<Rightarrow> int \<Rightarrow> int \<Rightarrow> bool result" where
  "within_parens ts left_index right_index =
     bind_result (retrieve_token ts left_index) (\<lambda>left_token.
     bind_result (retrieve_token ts right_index) (\<lambda>right_token.
       Return (get_token_type left_token = LEFT_PAREN \<and> get_token_type right_token = RIGHT_PAREN)))"

definition is_nested_parens :: "'v token list \<Rightarrow> int \<Rightarrow> int \<Rightarrow> bool result" where
  "is_nested_parens ts left_index right_index =
     bind_result (within_parens ts left_index right_index) (\<lambda>w.
       if \<not> w then Return False
       else bind_result (find_parenthesis_count ts left_index right_index) (\<lambda>(paren_counter, end_index).
              Return (paren_counter = 0 \<and> end_index = right_index)))"

definition skip_parentheses :: "'v token list \<Rightarrow> int \<Rightarrow> int \<Rightarrow> int result" where
  "skip_parentheses ts left_index right_index =
     bind_result (find_parenthesis_count ts left_index right_index) (\<lambda>(paren_counter, end_index).
       Return (min (end_index + 1) right_index))"

text \<open>\<^verbatim>\<open>_parse_literal\<close>: falls off the end (\<^verbatim>\<open>None\<close>) for any other kind.\<close>

definition parse_literal :: "'v token \<Rightarrow> 'v node option" where
  "parse_literal t =
     (if get_token_type t = STRING then Some (StringLiteralNode (get_literal t))
      else if get_token_type t = NUMBER then Some (NumberLiteralNode (get_literal t))
      else if get_token_type t = TRUE then Some (BooleanLiteralNode True)
      else if get_token_type t = FALSE then Some (BooleanLiteralNode False)
      else None)"

definition binary_operation_map :: "TokenType \<rightharpoonup> ('v node \<Rightarrow> 'v node \<Rightarrow> 'v node)" where
  "binary_operation_map = map_of
     [(AND, AndNode), (BANG_EQUAL, NotEqualsNode), (DIVIDE, DivisionNode),
      (EQUAL_EQUAL, EqualsNode), (EXPONENT, ExponentNode), (GREATER, GreaterNode),
      (GREATER_EQUAL, GreaterEqualsNode), (LESS, LessNode), (LESS_EQUAL, LessEqualsNode),
      (MINUS, SubtractionNode), (MODULUS, ModulusNode), (MULTIPLY, MultiplicationNode),
      (OR, OrNode), (PLUS, AdditionNode)]"

text \<open>\<^verbatim>\<open>_parse_operation\<close>: the operand getters fail on \<^verbatim>\<open>None\<close> and on a context of the
  other shape.\<close>

definition parse_operation :: "'v token \<Rightarrow> 'v operation_context option \<Rightarrow> 'v node option result" where
  "parse_operation t context =
     (case binary_operation_map (get_token_type t) of
        Some operation_class \<Rightarrow>
          (case context of
             Some (BinaryOperationContext left_operand right_operand) \<Rightarrow>
               Return (Some (operation_class left_operand right_operand))
           | _ \<Rightarrow> Raise AttributeError)
      | None \<Rightarrow>
          if get_token_type t = BANG then
            (case context of
               Some (UnaryOperationContext operand) \<Rightarrow> Return (Some (NotNode operand))
             | _ \<Rightarrow> Raise AttributeError)
          else Return None)"

definition operator_precedence :: "TokenType set list" where
  "operator_precedence =
     [{OR},
      {AND},
      {EQUAL_EQUAL, GREATER, GREATER_EQUAL, LESS_EQUAL, LESS, BANG_EQUAL},
      {BANG},
      {MINUS, PLUS},
      {MULTIPLY, DIVIDE, MODULUS},
      {EXPONENT}]"

section \<open>The parser (parser/parser.py)\<close>

text \<open>The methods of \<^verbatim>\<open>Parser\<close> that call one another recursively. The token list is \<open>ts\<close>;
  the cursor \<^verbatim>\<open>self._current\<close> is passed in as \<open>cur\<close> and returned with the value. The first
  argument is the fuel: every call spends one unit, and a call without fuel is
  \<open>Timeout\<close>, so that a Python call that never returns is \<open>Timeout\<close> for every fuel.\<close>

function (sequential) handle_token ::
      "nat \<Rightarrow> 'v token list \<Rightarrow> int \<Rightarrow> int option \<Rightarrow> 'v operation_context option
        \<Rightarrow> ('v node option \<times> int) result"
  and parse_print_token :: "nat \<Rightarrow> 'v token list \<Rightarrow> int \<Rightarrow> ('v node \<times> int) result"
  and parse_var_token :: "nat \<Rightarrow> 'v token list \<Rightarrow> int \<Rightarrow> ('v node \<times> int) result"
  and parse_expression :: "nat \<Rightarrow> 'v token list \<Rightarrow> int \<Rightarrow> ('v node option \<times> int) result"
  and parse_expression_recursive ::
      "nat \<Rightarrow> 'v token list \<Rightarrow> int \<Rightarrow> int \<Rightarrow> int \<Rightarrow> ('v node option \<times> int) result"
  and for_operators ::
      "nat \<Rightarrow> 'v token list \<Rightarrow> int \<Rightarrow> TokenType set list \<Rightarrow> int \<Rightarrow> int
        \<Rightarrow> ('v node option \<times> int) result"
  and while_index ::
      "nat \<Rightarrow> 'v token list \<Rightarrow> int \<Rightarrow> TokenType set \<Rightarrow> int \<Rightarrow> int \<Rightarrow> int
        \<Rightarrow> ('v node option \<times> int) result"
  and handle_by_operations ::
      "nat \<Rightarrow> 'v token list \<Rightarrow> int \<Rightarrow> TokenType set \<Rightarrow> int \<Rightarrow> int \<Rightarrow> int
        \<Rightarrow> ('v node option \<times> int) result"
  and handle_unary_operation ::
      "nat \<Rightarrow> 'v token list \<Rightarrow> int \<Rightarrow> int \<Rightarrow> int \<Rightarrow> ('v node option \<times> int) result"
  and handle_binary_operation ::
      "nat \<Rightarrow> 'v token list \<Rightarrow> int \<Rightarrow> int \<Rightarrow> int \<Rightarrow> int \<Rightarrow> ('v node option \<times> int) result"
  and parse_if_statement :: "nat \<Rightarrow> 'v token list \<Rightarrow> int \<Rightarrow> ('v node \<times> int) result"
  and parse_conditional ::
      "nat \<Rightarrow> 'v token list \<Rightarrow> int \<Rightarrow> (('v node option \<times> 'v node) \<times> int) result"
  and parse_block :: "nat \<Rightarrow> 'v token list \<Rightarrow> int \<Rightarrow> ('v node \<times> int) result"
  and parse_block_while ::
      "nat \<Rightarrow> 'v token list \<Rightarrow> int \<Rightarrow> 'v node option list \<Rightarrow> ('v node \<times> int) result"
  and parse_next_if_conditional ::
      "nat \<Rightarrow> 'v token list \<Rightarrow> int \<Rightarrow> ('v node option \<times> int) result"
  and parse_else :: "nat \<Rightarrow> 'v token list \<Rightarrow> int \<Rightarrow> ('v node \<times> int) result"
where
  "handle_token 0 ts cur index context = Timeout"
| "handle_token (Suc n) ts cur index context =
     (let index = (case index of None \<Rightarrow> cur | Some i \<Rightarrow> i) in
      bind_result (retrieve_token ts index) (\<lambda>token.
        if get_token_type token = PRINT then
          bind_result (parse_print_token n ts cur) (\<lambda>(node, c). Return (Some node, c))
        else if get_token_type token = IDENTIFIER then
          bind_result (parse_identifier_token ts index) (\<lambda>node. Return (Some node, cur))
        else if get_token_type token = VAR then
          bind_result (parse_var_token n ts cur) (\<lambda>(node, c). Return (Some node, c))
        else if get_token_type token = IF then
          bind_result (parse_if_statement n ts cur) (\<lambda>(node, c). Return (Some node, c))
        else if get_token_type token \<in> literal_types then
          Return (parse_literal token, cur)
        else if get_token_type token \<in> operation_types then
          bind_result (parse_operation token context) (\<lambda>node. Return (node, cur))
        else Return (None, cur)))"

| "parse_print_token 0 ts cur = Timeout"
| "parse_print_token (Suc n) ts cur =
     bind_result (validate_token ts cur {PRINT}
        (''Expected '' @ [CHR 0x27] @ emoji_print @ [CHR 0x27] @ '' for print statement.'')) (\<lambda>c1.
     bind_result (parse_expression n ts c1) (\<lambda>(node_to_print, c2).
     bind_result (validate_token ts c2 {SEMI_COLON}
        (''Expected '' @ [CHR 0x27] @ '';'' @ [CHR 0x27] @ '' to terminate statement.'')) (\<lambda>c3.
     Return (PrintNode node_to_print, c3))))"

| "parse_var_token 0 ts cur = Timeout"
| "parse_var_token (Suc n) ts cur =
     bind_result (validate_token ts cur {VAR}
        (''Expected '' @ [CHR 0x27] @ emoji_var @ [CHR 0x27] @ '' to indicate variable.'')) (\<lambda>c1.
     bind_result (parse_identifier_token ts c1) (\<lambda>variable_node.
     bind_result (validate_token ts c1 {IDENTIFIER}
        ''Expected an identifier for assignment.'') (\<lambda>c2.
     bind_result (validate_token ts c2 {EQUAL}
        (''Expected '' @ [CHR 0x27] @ emoji_assign @ [CHR 0x27] @ '' for assignment.'')) (\<lambda>c3.
     bind_result (parse_expression n ts c3) (\<lambda>(value_node, c4).
     bind_result (validate_token ts c4 {SEMI_COLON}
        (''Expected '' @ [CHR 0x27] @ '';'' @ [CHR 0x27] @ '' to terminate the statement.'')) (\<lambda>c5.
     Return (AssignmentNode variable_node value_node, c5)))))))"

| "parse_expression 0 ts cur = Timeout"
| "parse_expression (Suc n) ts cur =
     bind_result (find_end_of_expression_index ts cur) (\<lambda>end_of_expression_index.
     bind_result (parse_expression_recursive n ts cur cur (end_of_expression_index - 1)) (\<lambda>(node, c).
     Return (node, end_of_expression_index)))"

| "parse_expression_recursive 0 ts cur left_index right_index = Timeout"
| "parse_expression_recursive (Suc n) ts cur left_index right_index =
     bind_result (retrieve_token ts left_index) (\<lambda>left_token.
     bind_result (retrieve_token ts right_index) (\<lambda>right_token.
       if right_index - left_index = 0 then
         if get_token_type left_token \<notin> valid_expression_types then
           Raise (SyntaxException (get_line left_token)
             (''Invalid token in expression: TokenType.'' @ token_type_name (get_token_type left_token)))
         else handle_token n ts cur (Some left_index) None
       else
         bind_result (is_nested_parens ts left_index right_index) (\<lambda>nested.
           if nested then parse_expression_recursive n ts cur (left_index + 1) (right_index - 1)
           else for_operators n ts cur operator_precedence left_index right_index)))"

| "for_operators 0 ts cur tiers left_index right_index = Timeout"
| "for_operators (Suc n) ts cur [] left_index right_index =
     bind_result (retrieve_token ts left_index) (\<lambda>t.
       Raise (SyntaxException (get_line t) ''Invalid expression: no valid operations found.''))"
| "for_operators (Suc n) ts cur (operators # tiers) left_index right_index =
     bind_result (while_index n ts cur operators left_index right_index left_index) (\<lambda>(node, c).
       case node of
         Some found \<Rightarrow> Return (Some found, c)
       | None \<Rightarrow> for_operators n ts c tiers left_index right_index)"

| "while_index 0 ts cur operators left_index right_index index = Timeout"
| "while_index (Suc n) ts cur operators left_index right_index index =
     (if index < right_index then
        bind_result (retrieve_token ts index) (\<lambda>token.
        bind_result (if get_token_type token = LEFT_PAREN
                     then skip_parentheses ts index right_index else Return index) (\<lambda>index1.
        bind_result (handle_by_operations n ts cur operators left_index right_index index1) (\<lambda>(node, c).
          case node of
            Some found \<Rightarrow> Return (Some found, c)
          | None \<Rightarrow> while_index n ts c operators left_index right_index (index1 + 1))))
      else Return (None, cur))"

| "handle_by_operations 0 ts cur operations left_index right_index index = Timeout"
| "handle_by_operations (Suc n) ts cur operations left_index right_index index =
     bind_result (retrieve_token ts index) (\<lambda>token.
       if get_token_type token \<in> operations then
         if get_token_type token \<in> unary_operations
         then handle_unary_operation n ts cur index right_index
         else handle_binary_operation n ts cur left_index index right_index
       else Return (None, cur))"

| "handle_unary_operation 0 ts cur index right_index = Timeout"
| "handle_unary_operation (Suc n) ts cur index right_index =
     bind_result (retrieve_token ts index) (\<lambda>token.
     bind_result (parse_expression_recursive n ts cur (index + 1) right_index) (\<lambda>(right_node, c).
       case right_node of
         None \<Rightarrow> Raise (SyntaxException (get_line token) ''Invalid expression: missing right operand.'')
       | Some operand \<Rightarrow> handle_token n ts c (Some index) (Some (UnaryOperationContext operand))))"

| "handle_binary_operation 0 ts cur left_index index right_index = Timeout"
| "handle_binary_operation (Suc n) ts cur left_index index right_index =
     bind_result (retrieve_token ts index) (\<lambda>token.
     bind_result (parse_expression_recursive n ts cur left_index (index - 1)) (\<lambda>(left_node, c1).
       case left_node of
         None \<Rightarrow> Raise (SyntaxException (get_line token) ''Invalid expression: missing left operand.'')
       | Some left_operand \<Rightarrow>
           bind_result (parse_expression_recursive n ts c1 (index + 1) right_index) (\<lambda>(right_node, c2).
             case right_node of
               None \<Rightarrow> Raise (SyntaxException (get_line token) ''Invalid expression: missing right operand.'')
             | Some right_operand \<Rightarrow>
                 handle_token n ts c2 (Some index)
                   (Some (BinaryOperationContext left_operand right_operand)))))"

| "parse_if_statement 0 ts cur = Timeout"
| "parse_if_statement (Suc n) ts cur =
     bind_result (validate_token ts cur {IF}
        (''Expected '' @ [CHR 0x27] @ emoji_if @ [CHR 0x27] @ '' for if statement.'')) (\<lambda>c1.
     bind_result (parse_conditional n ts c1) (\<lambda>((condition_node, block_node), c2).
     bind_result (parse_next_if_conditional n ts c2) (\<lambda>(next_conditional, c3).
     Return (IfNode condition_node block_node next_conditional, c3))))"

| "parse_conditional 0 ts cur = Timeout"
| "parse_conditional (Suc n) ts cur =
     bind_result (parse_expression n ts cur) (\<lambda>(condition_node, c1).
     bind_result (validate_token ts c1 {LEFT_BRACE}
        (''Expected '' @ [CHR 0x27] @ ''{'' @ [CHR 0x27] @ '' to begin if statement block.'')) (\<lambda>c2.
     bind_result (parse_block n ts c2) (\<lambda>(if_block_node, c3).
     bind_result (validate_token ts c3 {RIGHT_BRACE}
        (''Expected '' @ [CHR 0x27] @ ''}'' @ [CHR 0x27] @ '' to begin if statement block.'')) (\<lambda>c4.
     Return ((condition_node, if_block_node), c4)))))"

| "parse_block 0 ts cur = Timeout"
| "parse_block (Suc n) ts cur = parse_block_while n ts cur []"

| "parse_block_while 0 ts cur nodes = Timeout"
| "parse_block_while (Suc n) ts cur nodes =
     bind_result (retrieve_token ts cur) (\<lambda>token.
       if get_token_type token \<noteq> RIGHT_BRACE then
         if get_token_type token = EOF
         then Raise (SyntaxException (get_line token) ''Missing closing right brace.'')
         else bind_result (handle_token n ts cur None None) (\<lambda>(node, c).
                parse_block_while n ts c (nodes @ [node]))
       else Return (BlockNode nodes, cur))"

| "parse_next_if_conditional 0 ts cur = Timeout"
| "parse_next_if_conditional (Suc n) ts cur =
     bind_result (retrieve_token ts cur) (\<lambda>token.
       if get_token_type token = ELSE then
         bind_result (parse_else n ts cur) (\<lambda>(node, c). Return (Some node, c))
       else if get_token_type token \<notin> if_statement_tokens then Return (None, cur)
       else if get_token_type token = ELSEIF then
         bind_result (validate_token ts cur {ELSEIF}
            (''Expected '' @ [CHR 0x27] @ emoji_elseif @ [CHR 0x27] @ '' for elseif statement.'')) (\<lambda>c1.
         bind_result (parse_conditional n ts c1) (\<lambda>((condition_node, block_node), c2).
         bind_result (parse_next_if_conditional n ts c2) (\<lambda>(next_conditional, c3).
         Return (Some (ElseIfNode condition_node block_node next_conditional), c3))))
       else Return (None, cur))"

| "parse_else 0 ts cur = Timeout"
| "parse_else (Suc n) ts cur =
     bind_result (retrieve_token ts cur) (\<lambda>token.
       if get_token_type token = ELSE then
         bind_result (validate_token ts cur {ELSE}
            (''Expected '' @ [CHR 0x27] @ emoji_else @ [CHR 0x27] @ '' for else.'')) (\<lambda>c1.
         bind_result (validate_token ts c1 {LEFT_BRACE}
            (''Expected '' @ [CHR 0x27] @ ''{'' @ [CHR 0x27] @ '' to begin else block.'')) (\<lambda>c2.
         bind_result (parse_block n ts c2) (\<lambda>(else_block_node, c3).
         bind_result (validate_token ts c3 {RIGHT_BRACE}
            (''Expected '' @ [CHR 0x27] @ ''}'' @ [CHR 0x27] @ '' to begin else block.'')) (\<lambda>c4.
         Return (ElseNode (Some else_block_node), c4)))))
       else Return (ElseNode None, cur))"
  by pat_completeness auto
termination
  by (relation "measure
       (case_sum
         (case_sum
           (case_sum (case_sum fst fst) (case_sum fst fst))
           (case_sum (case_sum fst fst) (case_sum fst fst)))
         (case_sum
           (case_sum (case_sum fst fst) (case_sum fst fst))
           (case_sum (case_sum fst fst) (case_sum fst fst))))")
     auto

text \<open>\<^verbatim>\<open>parse\<close>: the loop of the entry point, then the entry point itself.\<close>

fun parse_while :: "nat \<Rightarrow> 'v token list \<Rightarrow> int \<Rightarrow> 'v node option list \<Rightarrow> 'v node result" where
  "parse_while 0 ts cur nodes = Timeout"
| "parse_while (Suc n) ts cur nodes =
     (if in_bounds ts cur then
        bind_result (retrieve_token ts cur) (\<lambda>token.
          if get_token_type token \<noteq> EOF then
            bind_result (handle_token n ts cur None None) (\<lambda>(node, c).
              parse_while n ts c (nodes @ [node]))
          else Return (BlockNode nodes))
      else Return (BlockNode nodes))"

definition parse :: "nat \<Rightarrow> 'v token list \<Rightarrow> 'v node result" where
  "parse n ts = parse_while n ts 0 []"

lemmas parser_simps =
  handle_token.simps parse_print_token.simps parse_var_token.simps parse_expression.simps
  parse_expression_recursive.simps for_operators.simps while_index.simps
  handle_by_operations.simps handle_unary_operation.simps handle_binary_operation.simps
  parse_if_statement.simps parse_conditional.simps parse_block.simps parse_block_while.simps
  parse_next_if_conditional.simps parse_else.simps

declare parser_simps [simp del]

section \<open>Fuel: an outcome other than \<open>Timeout\<close> is stable\<close>

definition le_res :: "'a result \<Rightarrow> 'a result \<Rightarrow> bool" where
  "le_res a b = (a = Timeout \<or> a = b)"

lemma le_res_refl: "le_res a a" by (simp add: le_res_def)
lemma le_res_Timeout: "le_res Timeout b" by (simp add: le_res_def)

lemma le_res_bind:
  "le_res a b \<Longrightarrow> (\<And>x. le_res (f x) (g x)) \<Longrightarrow> le_res (bind_result a f) (bind_result b g)"
  by (cases a) (force simp: le_res_def)+

lemma le_res_if:
  "(c \<Longrightarrow> le_res a b) \<Longrightarrow> (\<not> c \<Longrightarrow> le_res a' b') \<Longrightarrow> le_res (if c then a else a') (if c then b else b')"
  by simp

lemma le_res_case_prod:
  "(\<And>x y. le_res (f x y) (g x y)) \<Longrightarrow> le_res (case_prod f p) (case_prod g p)"
  by (cases p) simp

lemma le_res_case_prod2:
  "(\<And>x y. le_res (f x y z) (g x y z)) \<Longrightarrow> le_res (case_prod f p z) (case_prod g p z)"
  by (cases p) simp

lemma le_res_case_option:
  "le_res a b \<Longrightarrow> (\<And>x. le_res (f x) (g x)) \<Longrightarrow> le_res (case_option a f v) (case_option b g v)"
  by (cases v) simp_all

lemmas le_res_intros = le_res_bind le_res_if le_res_case_prod le_res_case_prod2 le_res_case_option le_res_refl

definition fuel_le :: "'v itself \<Rightarrow> nat \<Rightarrow> nat \<Rightarrow> bool" where
  "fuel_le ty n m =
    ((\<forall>(ts::'v token list) cur index context. le_res (handle_token n ts cur index context) (handle_token m ts cur index context)) \<and>
     (\<forall>(ts::'v token list) cur. le_res (parse_print_token n ts cur) (parse_print_token m ts cur)) \<and>
     (\<forall>(ts::'v token list) cur. le_res (parse_var_token n ts cur) (parse_var_token m ts cur)) \<and>
     (\<forall>(ts::'v token list) cur. le_res (parse_expression n ts cur) (parse_expression m ts cur)) \<and>
     (\<forall>(ts::'v token list) cur l r. le_res (parse_expression_recursive n ts cur l r) (parse_expression_recursive m ts cur l r)) \<and>
     (\<forall>(ts::'v token list) cur tiers l r. le_res (for_operators n ts cur tiers l r) (for_operators m ts cur tiers l r)) \<and>
     (\<forall>(ts::'v token list) cur ops l r i. le_res (while_index n ts cur ops l r i) (while_index m ts cur ops l r i)) \<and>
     (\<forall>(ts::'v token list) cur ops l r i. le_res (handle_by_operations n ts cur ops l r i) (handle_by_operations m ts cur ops l r i)) \<and>
     (\<forall>(ts::'v token list) cur i r. le_res (handle_unary_operation n ts cur i r) (handle_unary_operation m ts cur i r)) \<and>
     (\<forall>(ts::'v token list) cur l i r. le_res (handle_binary_operation n ts cur l i r) (handle_binary_operation m ts cur l i r)) \<and>
     (\<forall>(ts::'v token list) cur. le_res (parse_if_statement n ts cur) (parse_if_statement m ts cur)) \<and>
     (\<forall>(ts::'v token list) cur. le_res (parse_conditional n ts cur) (parse_conditional m ts cur)) \<and>
     (\<forall>(ts::'v token list) cur. le_res (parse_block n ts cur) (parse_block m ts cur)) \<and>
     (\<forall>(ts::'v token list) cur nodes. le_res (parse_block_while n ts cur nodes) (parse_block_while m ts cur nodes)) \<and>
     (\<forall>(ts::'v token list) cur. le_res (parse_next_if_conditional n ts cur) (parse_next_if_conditional m ts cur)) \<and>
     (\<forall>(ts::'v token list) cur. le_res (parse_else n ts cur) (parse_else m ts cur)))"

lemma fuel_leD:
  assumes "fuel_le TYPE('v) n m"
  shows "le_res (handle_token n (ts::'v token list) cur index context) (handle_token m ts cur index context)"
    and "le_res (parse_print_token n (ts::'v token list) cur) (parse_print_token m ts cur)"
    and "le_res (parse_var_token n (ts::'v token list) cur) (parse_var_token m ts cur)"
    and "le_res (parse_expression n (ts::'v token list) cur) (parse_expression m ts cur)"
    and "le_res (parse_expression_recursive n (ts::'v token list) cur l r) (parse_expression_recursive m ts cur l r)"
    and "le_res (for_operators n (ts::'v token list) cur tiers l r) (for_operators m ts cur tiers l r)"
    and "le_res (while_index n (ts::'v token list) cur ops l r i) (while_index m ts cur ops l r i)"
    and "le_res (handle_by_operations n (ts::'v token list) cur ops l r i) (handle_by_operations m ts cur ops l r i)"
    and "le_res (handle_unary_operation n (ts::'v token list) cur i r) (handle_unary_operation m ts cur i r)"
    and "le_res (handle_binary_operation n (ts::'v token list) cur l i r) (handle_binary_operation m ts cur l i r)"
    and "le_res (parse_if_statement n (ts::'v token list) cur) (parse_if_statement m ts cur)"
    and "le_res (parse_conditional n (ts::'v token list) cur) (parse_conditional m ts cur)"
    and "le_res (parse_block n (ts::'v token list) cur) (parse_block m ts cur)"
    and "le_res (parse_block_while n (ts::'v token list) cur nodes) (parse_block_while m ts cur nodes)"
    and "le_res (parse_next_if_conditional n (ts::'v token list) cur) (parse_next_if_conditional m ts cur)"
    and "le_res (parse_else n (ts::'v token list) cur) (parse_else m ts cur)"
  using assms unfolding fuel_le_def by simp_all

lemma fuel_le_0: "fuel_le ty 0 m"
  by (simp add: fuel_le_def le_res_Timeout parser_simps)

lemma fuel_le_Suc:
  assumes "fuel_le TYPE('v) n m"
  shows "fuel_le TYPE('v) (Suc n) (Suc m)"
proof -
  note rules = le_res_intros fuel_leD [OF assms]
  show ?thesis
    unfolding fuel_le_def
  proof (intro conjI allI)
    fix ts :: "'v token list" and cur index ctx
    show "le_res (handle_token (Suc n) ts cur index ctx) (handle_token (Suc m) ts cur index ctx)"
      unfolding handle_token.simps Let_def by (intro rules)
  next
    fix ts :: "'v token list" and cur
    show "le_res (parse_print_token (Suc n) ts cur) (parse_print_token (Suc m) ts cur)"
      unfolding parse_print_token.simps by (intro rules)
  next
    fix ts :: "'v token list" and cur
    show "le_res (parse_var_token (Suc n) ts cur) (parse_var_token (Suc m) ts cur)"
      unfolding parse_var_token.simps by (intro rules)
  next
    fix ts :: "'v token list" and cur
    show "le_res (parse_expression (Suc n) ts cur) (parse_expression (Suc m) ts cur)"
      unfolding parse_expression.simps by (intro rules)
  next
    fix ts :: "'v token list" and cur l r
    show "le_res (parse_expression_recursive (Suc n) ts cur l r) (parse_expression_recursive (Suc m) ts cur l r)"
      unfolding parse_expression_recursive.simps by (intro rules)
  next
    fix ts :: "'v token list" and cur tiers l r
    show "le_res (for_operators (Suc n) ts cur tiers l r) (for_operators (Suc m) ts cur tiers l r)"
      by (cases tiers) (simp_all only: for_operators.simps, (intro rules)+)
  next
    fix ts :: "'v token list" and cur ops l r i
    show "le_res (while_index (Suc n) ts cur ops l r i) (while_index (Suc m) ts cur ops l r i)"
      unfolding while_index.simps by (intro rules)
  next
    fix ts :: "'v token list" and cur ops l r i
    show "le_res (handle_by_operations (Suc n) ts cur ops l r i) (handle_by_operations (Suc m) ts cur ops l r i)"
      unfolding handle_by_operations.simps by (intro rules)
  next
    fix ts :: "'v token list" and cur i r
    show "le_res (handle_unary_operation (Suc n) ts cur i r) (handle_unary_operation (Suc m) ts cur i r)"
      unfolding handle_unary_operation.simps by (intro rules)
  next
    fix ts :: "'v token list" and cur l i r
    show "le_res (handle_binary_operation (Suc n) ts cur l i r) (handle_binary_operation (Suc m) ts cur l i r)"
      unfolding handle_binary_operation.simps by (intro rules)
  next
    fix ts :: "'v token list" and cur
    show "le_res (parse_if_statement (Suc n) ts cur) (parse_if_statement (Suc m) ts cur)"
      unfolding parse_if_statement.simps by (intro rules)
  next
    fix ts :: "'v token list" and cur
    show "le_res (parse_conditional (Suc n) ts cur) (parse_conditional (Suc m) ts cur)"
      unfolding parse_conditional.simps by (intro rules)
  next
    fix ts :: "'v token list" and cur
    show "le_res (parse_block (Suc n) ts cur) (parse_block (Suc m) ts cur)"
      unfolding parse_block.simps by (intro rules)
  next
    fix ts :: "'v token list" and cur nodes
    show "le_res (parse_block_while (Suc n) ts cur nodes) (parse_block_while (Suc m) ts cur nodes)"
      unfolding parse_block_while.simps by (intro rules)
  next
    fix ts :: "'v token list" and cur
    show "le_res (parse_next_if_conditional (Suc n) ts cur) (parse_next_if_conditional (Suc m) ts cur)"
      unfolding parse_next_if_conditional.simps by (intro rules)
  next
    fix ts :: "'v token list" and cur
    show "le_res (parse_else (Suc n) ts cur) (parse_else (Suc m) ts cur)"
      unfolding parse_else.simps by (intro rules)
  qed
qed

lemma fuel_le_mono: "n \<le> m \<Longrightarrow> fuel_le TYPE('v) n m"
proof (induction n arbitrary: m)
  case 0
  show ?case by (rule fuel_le_0)
next
  case (Suc n)
  then obtain m' where "m = Suc m'" "n \<le> m'" by (cases m) auto
  with Suc.IH show ?case by (simp add: fuel_le_Suc)
qed

lemma le_resD: "le_res a b \<Longrightarrow> a \<noteq> Timeout \<Longrightarrow> b = a"
  by (auto simp: le_res_def)

text \<open>More fuel never changes an outcome other than \<open>Timeout\<close>.\<close>

lemma handle_token_fuel:
  "handle_token n ts cur index context = r \<Longrightarrow> r \<noteq> Timeout \<Longrightarrow> n \<le> m
    \<Longrightarrow> handle_token m ts cur index context = r"
  using fuel_leD(1) [OF fuel_le_mono, of n m ts cur index "context"] by (auto dest: le_resD)

lemma parse_print_token_fuel:
  "parse_print_token n ts cur = r \<Longrightarrow> r \<noteq> Timeout \<Longrightarrow> n \<le> m \<Longrightarrow> parse_print_token m ts cur = r"
  using fuel_leD(2) [OF fuel_le_mono, of n m ts cur] by (auto dest: le_resD)

lemma parse_var_token_fuel:
  "parse_var_token n ts cur = r \<Longrightarrow> r \<noteq> Timeout \<Longrightarrow> n \<le> m \<Longrightarrow> parse_var_token m ts cur = r"
  using fuel_leD(3) [OF fuel_le_mono, of n m ts cur] by (auto dest: le_resD)

lemma parse_expression_fuel:
  "parse_expression n ts cur = r \<Longrightarrow> r \<noteq> Timeout \<Longrightarrow> n \<le> m \<Longrightarrow> parse_expression m ts cur = r"
  using fuel_leD(4) [OF fuel_le_mono, of n m ts cur] by (auto dest: le_resD)

lemma parse_expression_recursive_fuel:
  "parse_expression_recursive n ts cur l r = v \<Longrightarrow> v \<noteq> Timeout \<Longrightarrow> n \<le> m
    \<Longrightarrow> parse_expression_recursive m ts cur l r = v"
  using fuel_leD(5) [OF fuel_le_mono, of n m ts cur l r] by (auto dest: le_resD)

lemma for_operators_fuel:
  "for_operators n ts cur tiers l r = v \<Longrightarrow> v \<noteq> Timeout \<Longrightarrow> n \<le> m
    \<Longrightarrow> for_operators m ts cur tiers l r = v"
  using fuel_leD(6) [OF fuel_le_mono, of n m ts cur tiers l r] by (auto dest: le_resD)

lemma while_index_fuel:
  "while_index n ts cur ops l r i = v \<Longrightarrow> v \<noteq> Timeout \<Longrightarrow> n \<le> m
    \<Longrightarrow> while_index m ts cur ops l r i = v"
  using fuel_leD(7) [OF fuel_le_mono, of n m ts cur ops l r i] by (auto dest: le_resD)

lemma handle_by_operations_fuel:
  "handle_by_operations n ts cur ops l r i = v \<Longrightarrow> v \<noteq> Timeout \<Longrightarrow> n \<le> m
    \<Longrightarrow> handle_by_operations m ts cur ops l r i = v"
  using fuel_leD(8) [OF fuel_le_mono, of n m ts cur ops l r i] by (auto dest: le_resD)

lemma handle_unary_operation_fuel:
  "handle_unary_operation n ts cur i r = v \<Longrightarrow> v \<noteq> Timeout \<Longrightarrow> n \<le> m
    \<Longrightarrow> handle_unary_operation m ts cur i r = v"
  using fuel_leD(9) [OF fuel_le_mono, of n m ts cur i r] by (auto dest: le_resD)

lemma handle_binary_operation_fuel:
  "handle_binary_operation n ts cur l i r = v \<Longrightarrow> v \<noteq> Timeout \<Longrightarrow> n \<le> m
    \<Longrightarrow> handle_binary_operation m ts cur l i r = v"
  using fuel_leD(10) [OF fuel_le_mono, of n m ts cur l i r] by (auto dest: le_resD)

lemma parse_if_statement_fuel:
  "parse_if_statement n ts cur = r \<Longrightarrow> r \<noteq> Timeout \<Longrightarrow> n \<le> m \<Longrightarrow> parse_if_statement m ts cur = r"
  using fuel_leD(11) [OF fuel_le_mono, of n m ts cur] by (auto dest: le_resD)

lemma parse_conditional_fuel:
  "parse_conditional n ts cur = r \<Longrightarrow> r \<noteq> Timeout \<Longrightarrow> n \<le> m \<Longrightarrow> parse_conditional m ts cur = r"
  using fuel_leD(12) [OF fuel_le_mono, of n m ts cur] by (auto dest: le_resD)

lemma parse_block_fuel:
  "parse_block n ts cur = r \<Longrightarrow> r \<noteq> Timeout \<Longrightarrow> n \<le> m \<Longrightarrow> parse_block m ts cur = r"
  using fuel_leD(13) [OF fuel_le_mono, of n m ts cur] by (auto dest: le_resD)

lemma parse_block_while_fuel:
  "parse_block_while n ts cur nodes = r \<Longrightarrow> r \<noteq> Timeout \<Longrightarrow> n \<le> m
    \<Longrightarrow> parse_block_while m ts cur nodes = r"
  using fuel_leD(14) [OF fuel_le_mono, of n m ts cur nodes] by (auto dest: le_resD)

lemma parse_next_if_conditional_fuel:
  "parse_next_if_conditional n ts cur = r \<Longrightarrow> r \<noteq> Timeout \<Longrightarrow> n \<le> m
    \<Longrightarrow> parse_next_if_conditional m ts cur = r"
  using fuel_leD(15) [OF fuel_le_mono, of n m ts cur] by (auto dest: le_resD)

lemma parse_else_fuel:
  "parse_else n ts cur = r \<Longrightarrow> r \<noteq> Timeout \<Longrightarrow> n \<le> m \<Longrightarrow> parse_else m ts cur = r"
  using fuel_leD(16) [OF fuel_le_mono, of n m ts cur] by (auto dest: le_resD)

lemma parse_while_le:
  "n \<le> m \<Longrightarrow> le_res (parse_while n ts cur nodes) (parse_while m ts cur nodes)"
proof (induction n arbitrary: m ts cur nodes)
  case 0
  show ?case by (simp add: le_res_Timeout)
next
  case (Suc n)
  then obtain m' where m: "m = Suc m'" "n \<le> m'" by (cases m) auto
  have h: "\<And>ts cur. le_res (handle_token n ts cur None None) (handle_token m' (ts::'a token list) cur None None)"
    by (rule fuel_leD(1) [OF fuel_le_mono [OF m(2)]])
  show ?case
    unfolding m(1) parse_while.simps
    by (intro le_res_intros h Suc.IH [OF m(2)])
qed

lemma parse_fuel:
  "parse n ts = r \<Longrightarrow> r \<noteq> Timeout \<Longrightarrow> n \<le> m \<Longrightarrow> parse m ts = r"
  using parse_while_le [of n m ts 0 "[]"] by (auto simp: parse_def dest: le_resD)

section \<open>Evaluating the parser on given tokens\<close>

lemmas eval_simps =
  parser_simps retrieve_token_def validate_token_def parse_identifier_token_def
  find_end_of_expression_index.simps find_parenthesis_count_while.simps
  find_parenthesis_count_def within_parens_def is_nested_parens_def skip_parentheses_def
  parse_literal_def parse_operation_def binary_operation_map_def operator_precedence_def
  literal_types_def valid_print_types_def operation_types_def unary_operations_def
  valid_expression_types_def if_statement_tokens_def in_bounds_def Let_def

section \<open>Termination of \<^verbatim>\<open>parse\<close>\<close>

lemma handle_token_undispatched:
  assumes "get_token_type t \<notin> {PRINT, IDENTIFIER, VAR, IF} \<union> literal_types \<union> operation_types"
  shows "handle_token (Suc k) (t # ts) 0 None None = Return (None, 0)"
  using assms by (simp add: retrieve_token_def handle_token.simps)

lemma parse_while_undispatched:
  assumes "get_token_type t \<notin> {PRINT, IDENTIFIER, VAR, IF, EOF} \<union> literal_types \<union> operation_types"
  shows "parse_while n (t # ts) 0 nodes = Timeout"
proof (induction n arbitrary: nodes)
  case 0
  show ?case by simp
next
  case (Suc n)
  have d: "get_token_type t \<notin> {PRINT, IDENTIFIER, VAR, IF} \<union> literal_types \<union> operation_types"
    and e: "get_token_type t \<noteq> EOF"
    using assms by auto
  show ?case
  proof (cases n)
    case 0
    then show ?thesis using e by (simp add: in_bounds_def retrieve_token_def handle_token.simps)
  next
    case (Suc k)
    have "parse_while (Suc n) (t # ts) 0 nodes = parse_while n (t # ts) 0 (nodes @ [None])"
      using e handle_token_undispatched [OF d, of k ts]
      by (simp add: Suc in_bounds_def retrieve_token_def)
    then show ?thesis by (simp add: Suc.IH)
  qed
qed

text \<open>C1 (fails on the code). The claim: for every finite token sequence \<^verbatim>\<open>parse()\<close>
  terminates, returning a Block or raising; a stream whose first token is a semicolon, a
  closing brace or any kind \<^verbatim>\<open>_handle_token\<close> does not dispatch on raises instead of
  hanging. What the code does: when the first token is of a kind \<^verbatim>\<open>_handle_token\<close> has no
  branch for, and is not the end-of-file token, \<^verbatim>\<open>_handle_token\<close> returns \<^verbatim>\<open>None\<close> and leaves
  the cursor where it is, so the loop of \<^verbatim>\<open>parse\<close> never ends: no amount of fuel yields an
  outcome.\<close>

theorem parse_hangs_on_undispatched_token:
  assumes "get_token_type t \<notin> {PRINT, IDENTIFIER, VAR, IF, EOF} \<union> literal_types \<union> operation_types"
  shows "parse n (t # ts) = Timeout"
  unfolding parse_def by (rule parse_while_undispatched [OF assms])

theorem parse_hangs_on_undispatched_token_witness:
  "\<forall>n. parse n [\<lparr>get_token_type = SEMI_COLON, get_lexeme = '';'', get_literal = (), get_line = 1\<rparr>,
               \<lparr>get_token_type = EOF, get_lexeme = [], get_literal = (), get_line = 1\<rparr>] = Timeout"
  by (intro allI parse_hangs_on_undispatched_token)
     (simp add: literal_types_def operation_types_def)

section \<open>Unmatched parentheses\<close>

lemma unclosed_left_parenthesis:
  "parse_expression 12
     (a\<lparr>get_token_type := LEFT_PAREN\<rparr> # b\<lparr>get_token_type := NUMBER\<rparr> # c\<lparr>get_token_type := PLUS\<rparr>
       # d\<lparr>get_token_type := NUMBER\<rparr> # e\<lparr>get_token_type := SEMI_COLON\<rparr> # rest) 0
   = Raise (SyntaxException (get_line d) ''Left parenthesis missing closing right.'')"
  by (simp add: eval_simps eval_nat_numeral)

lemma unopened_right_parenthesis:
  "parse_expression 30
     (a\<lparr>get_token_type := NUMBER\<rparr> # b\<lparr>get_token_type := PLUS\<rparr> # c\<lparr>get_token_type := NUMBER\<rparr>
       # d\<lparr>get_token_type := RIGHT_PAREN\<rparr> # e\<lparr>get_token_type := SEMI_COLON\<rparr> # rest) 0
   = Raise (SyntaxException (get_line c) ''Invalid expression: no valid operations found.'')"
  by (simp add: eval_simps eval_nat_numeral)

text \<open>C2 (fails on the code for the second expression). The claim: \<^verbatim>\<open>(1 + 2\<close> fails with
  the unmatched-left-parenthesis error and \<^verbatim>\<open>1 + 2)\<close> with the unmatched-right-parenthesis
  error, each on the right line. What the code does, for any fuel that suffices, any
  lexemes, values and lines of the tokens and any tokens after the terminator:
  \<^verbatim>\<open>( 1 + 2 ;\<close> raises the left-parenthesis error on the line of the last token of the
  expression; \<^verbatim>\<open>1 + 2 ) ;\<close> raises "no valid operations found" on the line of the token
  \<^verbatim>\<open>2\<close>, not the right-parenthesis error.\<close>

theorem unmatched_parentheses_errors:
  "parse_expression (n + 12)
     (a\<lparr>get_token_type := LEFT_PAREN\<rparr> # b\<lparr>get_token_type := NUMBER\<rparr> # c\<lparr>get_token_type := PLUS\<rparr>
       # d\<lparr>get_token_type := NUMBER\<rparr> # e\<lparr>get_token_type := SEMI_COLON\<rparr> # rest) 0
     = Raise (SyntaxException (get_line d) ''Left parenthesis missing closing right.'')
   \<and> parse_expression (n + 30)
     (a\<lparr>get_token_type := NUMBER\<rparr> # b\<lparr>get_token_type := PLUS\<rparr> # c\<lparr>get_token_type := NUMBER\<rparr>
       # d\<lparr>get_token_type := RIGHT_PAREN\<rparr> # e\<lparr>get_token_type := SEMI_COLON\<rparr> # rest) 0
     = Raise (SyntaxException (get_line c) ''Invalid expression: no valid operations found.'')"
  by (intro conjI parse_expression_fuel [OF unclosed_left_parenthesis]
        parse_expression_fuel [OF unopened_right_parenthesis]) simp_all

section \<open>The expression \<^verbatim>\<open>4 == ( 8 / 2 ) * 3\<close>\<close>

lemma equality_of_product_example:
  "parse_expression 60
     (a\<lparr>get_token_type := NUMBER\<rparr> # b\<lparr>get_token_type := EQUAL_EQUAL\<rparr>
       # c\<lparr>get_token_type := LEFT_PAREN\<rparr> # d\<lparr>get_token_type := NUMBER\<rparr>
       # e\<lparr>get_token_type := DIVIDE\<rparr> # f\<lparr>get_token_type := NUMBER\<rparr>
       # g\<lparr>get_token_type := RIGHT_PAREN\<rparr> # h\<lparr>get_token_type := MULTIPLY\<rparr>
       # i\<lparr>get_token_type := NUMBER\<rparr> # j\<lparr>get_token_type := SEMI_COLON\<rparr> # rest) 0
   = Return (Some (EqualsNode (NumberLiteralNode (get_literal a))
               (MultiplicationNode
                  (DivisionNode (NumberLiteralNode (get_literal d)) (NumberLiteralNode (get_literal f)))
                  (NumberLiteralNode (get_literal i)))), 9)"
  by (simp add: eval_simps eval_nat_numeral)

section \<open>Assignment of a literal\<close>

lemma assignment_of_literal_at_20:
  assumes "get_token_type L \<in> literal_types"
  shows "parse 20 [v\<lparr>get_token_type := VAR\<rparr>, x\<lparr>get_token_type := IDENTIFIER\<rparr>,
                   q\<lparr>get_token_type := EQUAL\<rparr>, L, s\<lparr>get_token_type := SEMI_COLON\<rparr>,
                   z\<lparr>get_token_type := EOF\<rparr>]
         = Return (BlockNode [Some (AssignmentNode (VariableNode (get_lexeme x))
             (Some (if get_token_type L = NUMBER then NumberLiteralNode (get_literal L)
                    else if get_token_type L = STRING then StringLiteralNode (get_literal L)
                    else BooleanLiteralNode (get_token_type L = TRUE))))])"
proof -
  consider "get_token_type L = NUMBER" | "get_token_type L = STRING"
    | "get_token_type L = TRUE" | "get_token_type L = FALSE"
    using assms by (auto simp: literal_types_def)
  then show ?thesis
    by cases (simp_all add: eval_simps eval_nat_numeral parse_def)
qed

text \<open>C6. For every token \<open>L\<close> of a literal kind, and any other fields of the tokens, the
  program \<^verbatim>\<open>var x = L ;\<close> followed by end-of-file parses to a Block holding one Assignment
  whose target is the variable of the identifier's lexeme and whose value is the literal
  node of \<open>L\<close>'s kind: NumberLiteral or StringLiteral with the token's decoded value,
  BooleanLiteral true for the true token and false for the false token.\<close>

theorem assignment_of_literal:
  assumes "get_token_type L \<in> literal_types"
  shows "parse (n + 20) [v\<lparr>get_token_type := VAR\<rparr>, x\<lparr>get_token_type := IDENTIFIER\<rparr>,
                   q\<lparr>get_token_type := EQUAL\<rparr>, L, s\<lparr>get_token_type := SEMI_COLON\<rparr>,
                   z\<lparr>get_token_type := EOF\<rparr>]
         = Return (BlockNode [Some (AssignmentNode (VariableNode (get_lexeme x))
             (Some (if get_token_type L = NUMBER then NumberLiteralNode (get_literal L)
                    else if get_token_type L = STRING then StringLiteralNode (get_literal L)
                    else BooleanLiteralNode (get_token_type L = TRUE))))])"
  by (rule parse_fuel [OF assignment_of_literal_at_20 [OF assms]]) simp_all

theorem assignment_of_literal_witness:
  "parse 20 [\<lparr>get_token_type = VAR, get_lexeme = ''var'', get_literal = None, get_line = 1\<rparr>,
             \<lparr>get_token_type = IDENTIFIER, get_lexeme = ''x'', get_literal = None, get_line = 1\<rparr>,
             \<lparr>get_token_type = EQUAL, get_lexeme = ''='', get_literal = None, get_line = 1\<rparr>,
             \<lparr>get_token_type = NUMBER, get_lexeme = ''7'', get_literal = Some (7::int), get_line = 1\<rparr>,
             \<lparr>get_token_type = SEMI_COLON, get_lexeme = '';'', get_literal = None, get_line = 1\<rparr>,
             \<lparr>get_token_type = EOF, get_lexeme = [], get_literal = None, get_line = 2\<rparr>]
   = Return (BlockNode [Some (AssignmentNode (VariableNode ''x'') (Some (NumberLiteralNode (Some 7))))])"
  using assignment_of_literal [of
    "\<lparr>get_token_type = NUMBER, get_lexeme = ''7'', get_literal = Some (7::int), get_line = 1\<rparr>" 0
    "\<lparr>get_token_type = VAR, get_lexeme = ''var'', get_literal = None, get_line = 1\<rparr>"
    "\<lparr>get_token_type = IDENTIFIER, get_lexeme = ''x'', get_literal = None, get_line = 1\<rparr>"
    "\<lparr>get_token_type = EQUAL, get_lexeme = ''='', get_literal = None, get_line = 1\<rparr>"
    "\<lparr>get_token_type = SEMI_COLON, get_lexeme = '';'', get_literal = None, get_line = 1\<rparr>"
    "\<lparr>get_token_type = EOF, get_lexeme = [], get_literal = None, get_line = 2\<rparr>"]
  by (simp add: literal_types_def)

section \<open>The empty expression\<close>

lemma empty_expression_at_12:
  assumes "retrieve_token ts cur = Return t" "get_token_type t \<notin> valid_expression_types" "0 \<le> cur"
  shows "parse_expression 12 ts cur
         = Raise (SyntaxException (get_line t) ''Invalid expression: no valid operations found.'')"
proof -
  have len: "cur < int (length ts)"
    using assms(1,3) by (auto simp: retrieve_token_def Let_def split: if_splits)
  then have "\<exists>t'. retrieve_token ts (cur - 1) = Return t'"
    using assms(3) by (cases "cur = 0") (auto simp: retrieve_token_def Let_def Suc_le_eq)
  then obtain t' where t': "retrieve_token ts (cur - 1) = Return t'" ..
  have np: "get_token_type t \<noteq> LEFT_PAREN"
    using assms(2) by (auto simp: valid_expression_types_def)
  have fe: "find_end_of_expression_index ts cur = Return cur"
    using assms(1,2) by (simp add: find_end_of_expression_index.simps)
  show ?thesis
    using assms(1) t' np fe
    by (simp add: parser_simps eval_nat_numeral is_nested_parens_def within_parens_def
          operator_precedence_def)
qed

text \<open>C10. Whenever the token at the cursor exists and is not expression-legal (the
  expression is empty), \<^verbatim>\<open>_parse_expression\<close> raises the syntax error "Invalid expression: no
  valid operations found." on that token's line, for every fuel from 12 on: it returns no
  node, absent or not. The cursor of the parser is never negative.\<close>

theorem empty_expression_raises:
  assumes "retrieve_token ts cur = Return t" "get_token_type t \<notin> valid_expression_types" "0 \<le> cur"
  shows "parse_expression (n + 12) ts cur
         = Raise (SyntaxException (get_line t) ''Invalid expression: no valid operations found.'')"
  by (rule parse_expression_fuel [OF empty_expression_at_12 [OF assms]]) simp_all

theorem empty_expression_raises_witness:
  "parse_expression 12
     [\<lparr>get_token_type = PRINT, get_lexeme = ''print'', get_literal = (), get_line = 3\<rparr>,
      \<lparr>get_token_type = SEMI_COLON, get_lexeme = '';'', get_literal = (), get_line = 4\<rparr>,
      \<lparr>get_token_type = EOF, get_lexeme = [], get_literal = (), get_line = 5\<rparr>] 1
   = Raise (SyntaxException 4 ''Invalid expression: no valid operations found.'')"
  using empty_expression_raises [of
     "[\<lparr>get_token_type = PRINT, get_lexeme = ''print'', get_literal = (), get_line = 3\<rparr>,
      \<lparr>get_token_type = SEMI_COLON, get_lexeme = '';'', get_literal = (), get_line = 4\<rparr>,
      \<lparr>get_token_type = EOF, get_lexeme = [], get_literal = (), get_line = 5\<rparr>]" 1
     "\<lparr>get_token_type = SEMI_COLON, get_lexeme = '';'', get_literal = (), get_line = 4\<rparr>" 0]
  by (simp add: retrieve_token_def valid_expression_types_def valid_print_types_def
        literal_types_def operation_types_def)

section \<open>The cursor during expression parsing\<close>


lemma bind_result_eq_Return:
  "bind_result m f = Return y \<longleftrightarrow> (\<exists>x. m = Return x \<and> f x = Return y)"
  by (cases m) simp_all

lemma find_end_of_expression_index_run:
  "find_end_of_expression_index ts i = Return e \<Longrightarrow>
     i \<le> e
     \<and> (\<forall>j. i \<le> j \<and> j < e \<longrightarrow>
           (\<exists>t. retrieve_token ts j = Return t \<and> get_token_type t \<in> valid_expression_types))
     \<and> (\<exists>t. retrieve_token ts e = Return t \<and> get_token_type t \<notin> valid_expression_types)"
proof (induction ts i rule: find_end_of_expression_index.induct)
  case (1 ts index)
  from "1.prems" obtain t where t: "retrieve_token ts index = Return t"
    by (subst (asm) find_end_of_expression_index.simps) (auto split: result.splits)
  show ?case
  proof (cases "get_token_type t \<in> valid_expression_types")
    case True
    with "1.prems" t have rec: "find_end_of_expression_index ts (index + 1) = Return e"
      by (subst (asm) find_end_of_expression_index.simps) simp
    from "1.IH" [OF t True rec] have ih:
      "index + 1 \<le> e"
      "\<And>j. index + 1 \<le> j \<Longrightarrow> j < e \<Longrightarrow>
         \<exists>t. retrieve_token ts j = Return t \<and> get_token_type t \<in> valid_expression_types"
      "\<exists>t. retrieve_token ts e = Return t \<and> get_token_type t \<notin> valid_expression_types"
      by auto
    have "\<exists>t. retrieve_token ts j = Return t \<and> get_token_type t \<in> valid_expression_types"
      if "index \<le> j" "j < e" for j
    proof (cases "j = index")
      case True then show ?thesis using t \<open>get_token_type t \<in> valid_expression_types\<close> by simp
    next
      case False then show ?thesis using that ih(2) [of j] by simp
    qed
    then show ?thesis using ih(1,3) by auto
  next
    case False
    with "1.prems" t have "e = index"
      by (subst (asm) find_end_of_expression_index.simps) simp
    then show ?thesis using t False by auto
  qed
qed

lemma handle_token_keeps_cursor:
  assumes "retrieve_token ts i = Return t" "get_token_type t \<notin> {PRINT, VAR, IF}"
    and "handle_token n ts cur (Some i) ctx = Return (nd, c)"
  shows "c = cur"
proof (cases n)
  case 0
  with assms(3) show ?thesis by (simp add: handle_token.simps)
next
  case (Suc k)
  with assms show ?thesis
    by (auto simp: handle_token.simps bind_result_eq_Return parse_identifier_token_def split: if_splits)
qed


definition keeps_cursor :: "'v itself \<Rightarrow> nat \<Rightarrow> bool" where
  "keeps_cursor ty n \<longleftrightarrow>
    (\<forall>(ts::'v token list) cur l r nd c. parse_expression_recursive n ts cur l r = Return (nd, c) \<longrightarrow> c = cur)
   \<and> (\<forall>(ts::'v token list) cur tiers l r nd c. (\<forall>ops \<in> set tiers. ops \<subseteq> operation_types)
        \<longrightarrow> for_operators n ts cur tiers l r = Return (nd, c) \<longrightarrow> c = cur)
   \<and> (\<forall>(ts::'v token list) cur ops l r i nd c. ops \<subseteq> operation_types
        \<longrightarrow> while_index n ts cur ops l r i = Return (nd, c) \<longrightarrow> c = cur)
   \<and> (\<forall>(ts::'v token list) cur ops l r i nd c. ops \<subseteq> operation_types
        \<longrightarrow> handle_by_operations n ts cur ops l r i = Return (nd, c) \<longrightarrow> c = cur)
   \<and> (\<forall>(ts::'v token list) cur i r t nd c. retrieve_token ts i = Return t \<longrightarrow> get_token_type t \<in> operation_types
        \<longrightarrow> handle_unary_operation n ts cur i r = Return (nd, c) \<longrightarrow> c = cur)
   \<and> (\<forall>(ts::'v token list) cur l i r t nd c. retrieve_token ts i = Return t \<longrightarrow> get_token_type t \<in> operation_types
        \<longrightarrow> handle_binary_operation n ts cur l i r = Return (nd, c) \<longrightarrow> c = cur)"

lemma keeps_cursorD:
  assumes "keeps_cursor TYPE('v) n"
  shows "parse_expression_recursive n (ts::'v token list) cur l r = Return (nd, c) \<Longrightarrow> c = cur"
    and "(\<forall>ops \<in> set tiers. ops \<subseteq> operation_types)
        \<Longrightarrow> for_operators n (ts::'v token list) cur tiers l r = Return (nd, c) \<Longrightarrow> c = cur"
    and "ops \<subseteq> operation_types
        \<Longrightarrow> while_index n (ts::'v token list) cur ops l r i = Return (nd, c) \<Longrightarrow> c = cur"
    and "ops \<subseteq> operation_types
        \<Longrightarrow> handle_by_operations n (ts::'v token list) cur ops l r i = Return (nd, c) \<Longrightarrow> c = cur"
    and "retrieve_token (ts::'v token list) i = Return t \<Longrightarrow> get_token_type t \<in> operation_types
        \<Longrightarrow> handle_unary_operation n ts cur i r = Return (nd, c) \<Longrightarrow> c = cur"
    and "retrieve_token (ts::'v token list) i = Return t \<Longrightarrow> get_token_type t \<in> operation_types
        \<Longrightarrow> handle_binary_operation n ts cur l i r = Return (nd, c) \<Longrightarrow> c = cur"
  using assms unfolding keeps_cursor_def by simp_all

lemma operation_not_statement: "k \<in> operation_types \<Longrightarrow> k \<notin> {PRINT, VAR, IF}"
  by (auto simp: operation_types_def)

lemma expression_legal_not_statement: "k \<in> valid_expression_types \<Longrightarrow> k \<notin> {PRINT, VAR, IF}"
  by (auto simp: valid_expression_types_def valid_print_types_def literal_types_def operation_types_def)

lemma tiers_are_operations: "\<forall>ops \<in> set operator_precedence. ops \<subseteq> operation_types"
  by (simp add: operator_precedence_def operation_types_def)

lemma keeps_cursor_step_recursive:
  assumes ih: "keeps_cursor TYPE('v) n"
    and run: "parse_expression_recursive (Suc n) (ts::'v token list) cur l r = Return (nd, c)"
  shows "c = cur"
proof -
  note body = run [unfolded parse_expression_recursive.simps]
  from body obtain lt where lt: "retrieve_token ts l = Return lt"
    by (auto simp: bind_result_eq_Return)
  show ?thesis
  proof (cases "r - l = 0")
    case True
    with body lt have v: "get_token_type lt \<in> valid_expression_types"
      and h: "handle_token n ts cur (Some l) None = Return (nd, c)"
      by (auto simp: bind_result_eq_Return split: if_splits)
    from handle_token_keeps_cursor [OF lt expression_legal_not_statement [OF v] h] show ?thesis .
  next
    case False
    with body lt obtain nested where
      "(if nested then parse_expression_recursive n ts cur (l + 1) (r - 1)
        else for_operators n ts cur operator_precedence l r) = Return (nd, c)"
      by (auto simp: bind_result_eq_Return)
    then show ?thesis
      using keeps_cursorD(1) [OF ih, of ts cur "l + 1" "r - 1" nd c]
        keeps_cursorD(2) [OF ih tiers_are_operations, of ts cur l r nd c]
      by (cases nested) simp_all
  qed
qed

lemma keeps_cursor_step_for:
  assumes ih: "keeps_cursor TYPE('v) n"
    and sub: "\<forall>ops \<in> set tiers. ops \<subseteq> operation_types"
    and run: "for_operators (Suc n) (ts::'v token list) cur tiers l r = Return (nd, c)"
  shows "c = cur"
proof (cases tiers)
  case Nil
  with run show ?thesis by (simp add: for_operators.simps bind_result_eq_Return)
next
  case (Cons ops rest)
  with run [unfolded Cons for_operators.simps] obtain nd1 c1 where
    w: "while_index n ts cur ops l r l = Return (nd1, c1)"
    and rest: "(case nd1 of Some found \<Rightarrow> Return (Some found, c1)
                 | None \<Rightarrow> for_operators n ts c1 rest l r) = Return (nd, c)"
    by (auto simp: bind_result_eq_Return)
  from sub Cons have o: "ops \<subseteq> operation_types" and r: "\<forall>ops \<in> set rest. ops \<subseteq> operation_types"
    by auto
  from keeps_cursorD(3) [OF ih o w] have "c1 = cur" .
  with rest keeps_cursorD(2) [OF ih r, of ts cur l r nd c] show ?thesis
    by (cases nd1) simp_all
qed

lemma keeps_cursor_step_while:
  assumes ih: "keeps_cursor TYPE('v) n"
    and sub: "ops \<subseteq> operation_types"
    and run: "while_index (Suc n) (ts::'v token list) cur ops l r i = Return (nd, c)"
  shows "c = cur"
proof (cases "i < r")
  case False
  with run show ?thesis by (simp add: while_index.simps)
next
  case True
  with run [unfolded while_index.simps] obtain i1 nd1 c1 where
    h: "handle_by_operations n ts cur ops l r i1 = Return (nd1, c1)"
    and rest: "(case nd1 of Some found \<Rightarrow> Return (Some found, c1)
                 | None \<Rightarrow> while_index n ts c1 ops l r (i1 + 1)) = Return (nd, c)"
    by (auto simp: bind_result_eq_Return)
  from keeps_cursorD(4) [OF ih sub h] have "c1 = cur" .
  with rest keeps_cursorD(3) [OF ih sub, of ts cur l r "i1 + 1" nd c] show ?thesis
    by (cases nd1) simp_all
qed

lemma keeps_cursor_step_by_operations:
  assumes ih: "keeps_cursor TYPE('v) n"
    and sub: "ops \<subseteq> operation_types"
    and run: "handle_by_operations (Suc n) (ts::'v token list) cur ops l r i = Return (nd, c)"
  shows "c = cur"
proof -
  note body = run [unfolded handle_by_operations.simps]
  from body obtain tok where tok: "retrieve_token ts i = Return tok"
    by (auto simp: bind_result_eq_Return)
  show ?thesis
  proof (cases "get_token_type tok \<in> ops")
    case False
    with body tok show ?thesis by simp
  next
    case True
    with sub have k: "get_token_type tok \<in> operation_types" by auto
    from body tok True keeps_cursorD(5) [OF ih tok k, of cur r nd c]
      keeps_cursorD(6) [OF ih tok k, of cur l r nd c]
    show ?thesis by (simp split: if_splits)
  qed
qed

lemma keeps_cursor_step_unary:
  assumes ih: "keeps_cursor TYPE('v) n"
    and tok: "retrieve_token (ts::'v token list) i = Return t" "get_token_type t \<in> operation_types"
    and run: "handle_unary_operation (Suc n) ts cur i r = Return (nd, c)"
  shows "c = cur"
proof -
  from tok(1) run [unfolded handle_unary_operation.simps]
  obtain rn c1 where p: "parse_expression_recursive n ts cur (i + 1) r = Return (Some rn, c1)"
    and h: "handle_token n ts c1 (Some i) (Some (UnaryOperationContext rn)) = Return (nd, c)"
    by (auto simp: bind_result_eq_Return split: option.splits)
  from keeps_cursorD(1) [OF ih p]
    handle_token_keeps_cursor [OF tok(1) operation_not_statement [OF tok(2)] h]
  show ?thesis by simp
qed

lemma keeps_cursor_step_binary:
  assumes ih: "keeps_cursor TYPE('v) n"
    and tok: "retrieve_token (ts::'v token list) i = Return t" "get_token_type t \<in> operation_types"
    and run: "handle_binary_operation (Suc n) ts cur l i r = Return (nd, c)"
  shows "c = cur"
proof -
  from tok(1) run [unfolded handle_binary_operation.simps]
  obtain ln c1 where p1: "parse_expression_recursive n ts cur l (i - 1) = Return (Some ln, c1)"
    and rest: "bind_result (parse_expression_recursive n ts c1 (i + 1) r) (\<lambda>(right_node, c2).
             case right_node of
               None \<Rightarrow> Raise (SyntaxException (get_line t) ''Invalid expression: missing right operand.'')
             | Some right_operand \<Rightarrow>
                 handle_token n ts c2 (Some i)
                   (Some (BinaryOperationContext ln right_operand))) = Return (nd, c)"
    by (auto simp: bind_result_eq_Return split: option.splits)
  from rest obtain rn c2 where p2: "parse_expression_recursive n ts c1 (i + 1) r = Return (Some rn, c2)"
    and h: "handle_token n ts c2 (Some i) (Some (BinaryOperationContext ln rn)) = Return (nd, c)"
    by (auto simp: bind_result_eq_Return split: option.splits)
  from keeps_cursorD(1) [OF ih p1] keeps_cursorD(1) [OF ih p2]
    handle_token_keeps_cursor [OF tok(1) operation_not_statement [OF tok(2)] h]
  show ?thesis by simp
qed

lemma keeps_cursor_all: "keeps_cursor TYPE('v) n"
proof (induction n)
  case 0
  show ?case
    unfolding keeps_cursor_def
    by (simp add: parse_expression_recursive.simps for_operators.simps while_index.simps
          handle_by_operations.simps handle_unary_operation.simps handle_binary_operation.simps)
next
  case (Suc n)
  show ?case
    unfolding keeps_cursor_def
  proof (intro conjI allI impI)
    fix ts :: "'v token list" and cur l r nd c
    assume "parse_expression_recursive (Suc n) ts cur l r = Return (nd, c)"
    then show "c = cur" by (rule keeps_cursor_step_recursive [OF Suc])
  next
    fix ts :: "'v token list" and cur tiers l r nd c
    assume "\<forall>ops \<in> set tiers. ops \<subseteq> operation_types"
      "for_operators (Suc n) ts cur tiers l r = Return (nd, c)"
    then show "c = cur" by (rule keeps_cursor_step_for [OF Suc])
  next
    fix ts :: "'v token list" and cur ops l r i nd c
    assume "ops \<subseteq> operation_types" "while_index (Suc n) ts cur ops l r i = Return (nd, c)"
    then show "c = cur" by (rule keeps_cursor_step_while [OF Suc])
  next
    fix ts :: "'v token list" and cur ops l r i nd c
    assume "ops \<subseteq> operation_types" "handle_by_operations (Suc n) ts cur ops l r i = Return (nd, c)"
    then show "c = cur" by (rule keeps_cursor_step_by_operations [OF Suc])
  next
    fix ts :: "'v token list" and cur i r t nd c
    assume "retrieve_token ts i = Return t" "get_token_type t \<in> operation_types"
      "handle_unary_operation (Suc n) ts cur i r = Return (nd, c)"
    then show "c = cur" by (rule keeps_cursor_step_unary [OF Suc])
  next
    fix ts :: "'v token list" and cur l i r t nd c
    assume "retrieve_token ts i = Return t" "get_token_type t \<in> operation_types"
      "handle_binary_operation (Suc n) ts cur l i r = Return (nd, c)"
    then show "c = cur" by (rule keeps_cursor_step_binary [OF Suc])
  qed
qed


text \<open>C8. Whenever \<^verbatim>\<open>_parse_expression\<close> returns, the cursor it leaves is the end of the
  maximal run of expression-legal tokens that starts at the cursor it was called with: every
  token from the old cursor up to the new one is expression-legal and the token at the new
  cursor is not. And whenever the range parse \<^verbatim>\<open>_parse_expression_recursive\<close> returns, on any
  range, the cursor is the one it was called with: only \<^verbatim>\<open>_parse_expression\<close> assigns it.\<close>

theorem expression_consumes_maximal_run:
  "(parse_expression n ts cur = Return (node, cur') \<longrightarrow>
      cur \<le> cur'
      \<and> (\<forall>i. cur \<le> i \<and> i < cur' \<longrightarrow>
            (\<exists>t. retrieve_token ts i = Return t \<and> get_token_type t \<in> valid_expression_types))
      \<and> (\<exists>t. retrieve_token ts cur' = Return t \<and> get_token_type t \<notin> valid_expression_types))
   \<and> (parse_expression_recursive m ts cur l r = Return (node', c) \<longrightarrow> c = cur)"
proof (intro conjI impI)
  assume run: "parse_expression n ts cur = Return (node, cur')"
  then obtain k where n: "n = Suc k"
    by (cases n) (simp_all add: parse_expression.simps)
  from run [unfolded n parse_expression.simps]
  have "find_end_of_expression_index ts cur = Return cur'"
    by (auto simp: bind_result_eq_Return)
  from find_end_of_expression_index_run [OF this]
  show "cur \<le> cur'"
    and "\<forall>i. cur \<le> i \<and> i < cur' \<longrightarrow>
            (\<exists>t. retrieve_token ts i = Return t \<and> get_token_type t \<in> valid_expression_types)"
    and "\<exists>t. retrieve_token ts cur' = Return t \<and> get_token_type t \<notin> valid_expression_types"
    by blast+
next
  assume "parse_expression_recursive m ts cur l r = Return (node', c)"
  then show "c = cur" by (rule keeps_cursorD(1) [OF keeps_cursor_all])
qed


theorem expression_consumes_maximal_run_witness:
  "parse_expression 30
      [\<lparr>get_token_type = NUMBER, get_lexeme = ''1'', get_literal = 1::int, get_line = 1\<rparr>,
       \<lparr>get_token_type = PLUS, get_lexeme = ''+'', get_literal = 0, get_line = 1\<rparr>,
       \<lparr>get_token_type = NUMBER, get_lexeme = ''2'', get_literal = 2, get_line = 1\<rparr>,
       \<lparr>get_token_type = SEMI_COLON, get_lexeme = '';'', get_literal = 0, get_line = 1\<rparr>] 0
     = Return (Some (AdditionNode (NumberLiteralNode 1) (NumberLiteralNode 2)), 3)
   \<and> get_token_type
        ([\<lparr>get_token_type = NUMBER, get_lexeme = ''1'', get_literal = 1::int, get_line = 1\<rparr>,
       \<lparr>get_token_type = PLUS, get_lexeme = ''+'', get_literal = 0, get_line = 1\<rparr>,
       \<lparr>get_token_type = NUMBER, get_lexeme = ''2'', get_literal = 2, get_line = 1\<rparr>,
       \<lparr>get_token_type = SEMI_COLON, get_lexeme = '';'', get_literal = 0, get_line = 1\<rparr>] ! 3)
        \<notin> valid_expression_types
   \<and> parse_expression_recursive 29
      [\<lparr>get_token_type = NUMBER, get_lexeme = ''1'', get_literal = 1::int, get_line = 1\<rparr>,
       \<lparr>get_token_type = PLUS, get_lexeme = ''+'', get_literal = 0, get_line = 1\<rparr>,
       \<lparr>get_token_type = NUMBER, get_lexeme = ''2'', get_literal = 2, get_line = 1\<rparr>,
       \<lparr>get_token_type = SEMI_COLON, get_lexeme = '';'', get_literal = 0, get_line = 1\<rparr>] 0 0 2
     = Return (Some (AdditionNode (NumberLiteralNode 1) (NumberLiteralNode 2)), 0)"
  using expression_consumes_maximal_run [of 30
      "[\<lparr>get_token_type = NUMBER, get_lexeme = ''1'', get_literal = 1::int, get_line = 1\<rparr>,
       \<lparr>get_token_type = PLUS, get_lexeme = ''+'', get_literal = 0, get_line = 1\<rparr>,
       \<lparr>get_token_type = NUMBER, get_lexeme = ''2'', get_literal = 2, get_line = 1\<rparr>,
       \<lparr>get_token_type = SEMI_COLON, get_lexeme = '';'', get_literal = 0, get_line = 1\<rparr>]" 0
      "Some (AdditionNode (NumberLiteralNode 1) (NumberLiteralNode 2))" 3 29 0 2
      "Some (AdditionNode (NumberLiteralNode 1) (NumberLiteralNode 2))" 0]
  by (simp add: parser_simps eval_simps eval_nat_numeral)

section \<open>The else clause\<close>

fun ends_in_else_without_body :: "'v node \<Rightarrow> bool" where
  "ends_in_else_without_body (IfNode c b nxt) =
     (case nxt of None \<Rightarrow> False | Some x \<Rightarrow> ends_in_else_without_body x)"
| "ends_in_else_without_body (ElseIfNode c b nxt) =
     (case nxt of None \<Rightarrow> False | Some x \<Rightarrow> ends_in_else_without_body x)"
| "ends_in_else_without_body (ElseNode body) = (body = None)"
| "ends_in_else_without_body _ = False"

lemma bind_result_eq_Raise:
  "bind_result m f = Raise e \<longleftrightarrow> m = Raise e \<or> (\<exists>x. m = Return x \<and> f x = Raise e)"
  by (cases m) simp_all

lemma parse_block_while_returns:
  "parse_block_while n ts cur acc = Return (b, c) \<Longrightarrow>
     (\<exists>nodes. b = BlockNode nodes)
     \<and> (\<exists>t. retrieve_token ts c = Return t \<and> get_token_type t = RIGHT_BRACE)"
proof (induction n arbitrary: cur acc)
  case 0
  then show ?case by (simp add: parse_block_while.simps)
next
  case (Suc n)
  note body = Suc.prems [unfolded parse_block_while.simps]
  from body obtain tok where tok: "retrieve_token ts cur = Return tok"
    by (auto simp: bind_result_eq_Return)
  show ?case
  proof (cases "get_token_type tok = RIGHT_BRACE")
    case True
    with body tok show ?thesis by auto
  next
    case False
    with body tok obtain nd c1 where "parse_block_while n ts c1 (acc @ [nd]) = Return (b, c)"
      by (auto simp: bind_result_eq_Return split: if_splits)
    from Suc.IH [OF this] show ?thesis .
  qed
qed

lemma parse_block_returns:
  "parse_block n ts cur = Return (b, c) \<Longrightarrow>
     (\<exists>nodes. b = BlockNode nodes)
     \<and> (\<exists>t. retrieve_token ts c = Return t \<and> get_token_type t = RIGHT_BRACE)"
  by (cases n) (auto simp: parse_block.simps dest: parse_block_while_returns)

lemma parse_else_on_else:
  assumes "retrieve_token ts cur = Return t" "get_token_type t = ELSE"
    and "parse_else n ts cur = Return (nd, c)"
  shows "\<exists>nodes t1 t2. nd = ElseNode (Some (BlockNode nodes))
           \<and> retrieve_token ts (cur + 1) = Return t1 \<and> get_token_type t1 = LEFT_BRACE
           \<and> retrieve_token ts (c - 1) = Return t2 \<and> get_token_type t2 = RIGHT_BRACE"
proof (cases n)
  case 0
  with assms(3) show ?thesis by (simp add: parse_else.simps)
next
  case (Suc k)
  from assms(3) [unfolded Suc parse_else.simps] assms(1,2)
  obtain t1 b c3 where t1: "retrieve_token ts (cur + 1) = Return t1" "get_token_type t1 = LEFT_BRACE"
    and blk: "parse_block k ts (cur + 1 + 1) = Return (b, c3)"
    and fin: "bind_result (validate_token ts c3 {RIGHT_BRACE}
            (''Expected '' @ [CHR 0x27] @ ''}'' @ [CHR 0x27] @ '' to begin else block.''))
          (\<lambda>c4. Return (ElseNode (Some b), c4)) = Return (nd, c)"
    by (auto simp: bind_result_eq_Return validate_token_def split: if_splits)
  from parse_block_returns [OF blk] obtain nodes t2 where
    b: "b = BlockNode nodes" and t2: "retrieve_token ts c3 = Return t2" "get_token_type t2 = RIGHT_BRACE"
    by auto
  from fin t2 have "nd = ElseNode (Some b)" "c = c3 + 1"
    by (auto simp: validate_token_def)
  with b t1 t2 show ?thesis by auto
qed

lemma parse_next_if_conditional_bodies:
  "parse_next_if_conditional n ts cur = Return (Some nd, c) \<Longrightarrow> \<not> ends_in_else_without_body nd"
proof (induction n arbitrary: cur nd c)
  case 0
  then show ?case by (simp add: parse_next_if_conditional.simps)
next
  case (Suc n)
  note body = Suc.prems [unfolded parse_next_if_conditional.simps]
  from body obtain tok where tok: "retrieve_token ts cur = Return tok"
    by (auto simp: bind_result_eq_Return)
  show ?case
  proof (cases "get_token_type tok = ELSE")
    case True
    with body tok obtain e where e: "parse_else n ts cur = Return (e, c)" and nd: "nd = e"
      by (auto simp: bind_result_eq_Return)
    from parse_else_on_else [OF tok True e] nd show ?thesis by auto
  next
    case False
    with body tok obtain cn bn nxt c2 where
      nxt: "parse_next_if_conditional n ts c2 = Return (nxt, c)" and nd: "nd = ElseIfNode cn bn nxt"
      by (auto simp: bind_result_eq_Return split: if_splits)
    show ?thesis
    proof (cases nxt)
      case None
      with nd show ?thesis by simp
    next
      case (Some x)
      with Suc.IH [of c2 x c] nxt nd show ?thesis by simp
    qed
  qed
qed

lemma parse_if_statement_bodies:
  assumes "parse_if_statement n ts cur = Return (nd, c)"
  shows "\<not> ends_in_else_without_body nd"
proof (cases n)
  case 0
  with assms show ?thesis by (simp add: parse_if_statement.simps)
next
  case (Suc k)
  from assms [unfolded Suc parse_if_statement.simps]
  obtain cn bn nxt c2 where
    nxt: "parse_next_if_conditional k ts c2 = Return (nxt, c)" and nd: "nd = IfNode cn bn nxt"
    by (auto simp: bind_result_eq_Return)
  show ?thesis
  proof (cases nxt)
    case None
    with nd show ?thesis by simp
  next
    case (Some x)
    with parse_next_if_conditional_bodies [of k ts c2 x c] nxt nd show ?thesis by simp
  qed
qed

text \<open>C4 (fails on the code). The claim: for some token input the if-chain ends in an Else
  node with an absent body. On the code no call of \<^verbatim>\<open>_parse_if_statement\<close> that returns, for
  any tokens, cursor and fuel, yields a chain that ends in an Else node without a body.\<close>

theorem no_else_without_body:
  "\<not> (\<exists>n (ts :: 'v token list) cur nd c.
        parse_if_statement n ts cur = Return (nd, c) \<and> ends_in_else_without_body nd)"
  using parse_if_statement_bodies by blast

text \<open>C4, amended. When the token after an if's block (or an elseif's block) is the else
  token and the parse of what follows returns, the braces were there: the next token is
  an opening brace, the last token consumed is a closing brace, and the chain ends in an
  Else node whose body is present, a Block (empty for \<^verbatim>\<open>else { }\<close>).\<close>

theorem else_clause_has_block:
  assumes "retrieve_token ts cur = Return t" "get_token_type t = ELSE"
    and "parse_next_if_conditional n ts cur = Return (nxt, c)"
  shows "\<exists>nodes t1 t2. nxt = Some (ElseNode (Some (BlockNode nodes)))
           \<and> retrieve_token ts (cur + 1) = Return t1 \<and> get_token_type t1 = LEFT_BRACE
           \<and> retrieve_token ts (c - 1) = Return t2 \<and> get_token_type t2 = RIGHT_BRACE"
proof (cases n)
  case 0
  with assms(3) show ?thesis by (simp add: parse_next_if_conditional.simps)
next
  case (Suc k)
  from assms(3) [unfolded Suc parse_next_if_conditional.simps] assms(1,2)
  obtain e where e: "parse_else k ts cur = Return (e, c)" and nd: "nxt = Some e"
    by (auto simp: bind_result_eq_Return)
  from parse_else_on_else [OF assms(1,2) e] nd show ?thesis by auto
qed

definition demo_if :: "unit token list" where
  "demo_if =
    [\<lparr>get_token_type = IF, get_lexeme = ''if'', get_literal = (), get_line = 1\<rparr>,
     \<lparr>get_token_type = IDENTIFIER, get_lexeme = ''c1'', get_literal = (), get_line = 1\<rparr>,
     \<lparr>get_token_type = LEFT_BRACE, get_lexeme = ''{'', get_literal = (), get_line = 1\<rparr>,
     \<lparr>get_token_type = RIGHT_BRACE, get_lexeme = ''}'', get_literal = (), get_line = 1\<rparr>,
     \<lparr>get_token_type = ELSE, get_lexeme = ''else'', get_literal = (), get_line = 2\<rparr>,
     \<lparr>get_token_type = LEFT_BRACE, get_lexeme = ''{'', get_literal = (), get_line = 2\<rparr>,
     \<lparr>get_token_type = RIGHT_BRACE, get_lexeme = ''}'', get_literal = (), get_line = 2\<rparr>,
     \<lparr>get_token_type = EOF, get_lexeme = [], get_literal = (), get_line = 3\<rparr>]"

theorem else_clause_has_block_witness:
  "parse_next_if_conditional 20 demo_if 4 = Return (Some (ElseNode (Some (BlockNode []))), 7)
   \<and> get_token_type (demo_if ! 5) = LEFT_BRACE \<and> get_token_type (demo_if ! 6) = RIGHT_BRACE"
  using else_clause_has_block [of demo_if 4 "demo_if ! 4" 20 "Some (ElseNode (Some (BlockNode [])))" 7]
  by (simp add: demo_if_def parser_simps eval_simps eval_nat_numeral)

section \<open>The shape of an if chain\<close>

text \<open>C7. For any tokens: when the cursor is on an if token, the conditional after it
  parses to condition \<open>c1\<close> and block \<open>A\<close>, the next token is elseif and its conditional
  parses to \<open>c2\<close> and \<open>B\<close>, and the next tokens are else and an opening brace whose block
  parses to \<open>C\<close>, then \<^verbatim>\<open>_parse_if_statement\<close> returns If(c1, A, ElseIf(c2, B, Else(C))) with
  the cursor after the closing brace. When the token after the if's block is neither
  elseif nor else, it returns If(c1, A, next absent) with the cursor on that token. The
  fuel \<open>n\<close> is any fuel that suffices for the parts.\<close>

theorem if_chain_shape:
  "(retrieve_token ts cur = Return t0 \<and> get_token_type t0 = IF
      \<and> parse_conditional n ts (cur + 1) = Return ((c1, A), p1)
      \<and> retrieve_token ts p1 = Return t1 \<and> get_token_type t1 = ELSEIF
      \<and> parse_conditional n ts (p1 + 1) = Return ((c2, B), p2)
      \<and> retrieve_token ts p2 = Return t2 \<and> get_token_type t2 = ELSE
      \<and> retrieve_token ts (p2 + 1) = Return t3 \<and> get_token_type t3 = LEFT_BRACE
      \<and> parse_block n ts (p2 + 2) = Return (C, p3)
     \<longrightarrow> parse_if_statement (n + 4) ts cur
          = Return (IfNode c1 A (Some (ElseIfNode c2 B (Some (ElseNode (Some C))))), p3 + 1))
   \<and> (retrieve_token ts cur = Return t0 \<and> get_token_type t0 = IF
      \<and> parse_conditional n ts (cur + 1) = Return ((c1, A), p1)
      \<and> retrieve_token ts p1 = Return t1 \<and> get_token_type t1 \<notin> {ELSEIF, ELSE}
     \<longrightarrow> parse_if_statement (n + 2) ts cur = Return (IfNode c1 A None, p1))"
proof (intro conjI impI; elim conjE)
  assume t0: "retrieve_token ts cur = Return t0" "get_token_type t0 = IF"
    and pc1: "parse_conditional n ts (cur + 1) = Return ((c1, A), p1)"
    and t1: "retrieve_token ts p1 = Return t1" "get_token_type t1 = ELSEIF"
    and pc2: "parse_conditional n ts (p1 + 1) = Return ((c2, B), p2)"
    and t2: "retrieve_token ts p2 = Return t2" "get_token_type t2 = ELSE"
    and t3: "retrieve_token ts (p2 + 1) = Return t3" "get_token_type t3 = LEFT_BRACE"
    and pb: "parse_block n ts (p2 + 2) = Return (C, p3)"
  from parse_block_returns [OF pb] obtain t4 where
    t4: "retrieve_token ts p3 = Return t4" "get_token_type t4 = RIGHT_BRACE" by auto
  have pb': "parse_block n ts (p2 + 1 + 1) = Return (C, p3)"
    using pb by (simp add: add.assoc)
  have e: "parse_else (Suc n) ts p2 = Return (ElseNode (Some C), p3 + 1)"
    using t2 t3 t4 pb' by (simp add: parse_else.simps validate_token_def)
  have n1: "parse_next_if_conditional (Suc (Suc n)) ts p2 = Return (Some (ElseNode (Some C)), p3 + 1)"
    using t2 e by (simp add: parse_next_if_conditional.simps)
  have pc2': "parse_conditional (Suc (Suc n)) ts (p1 + 1) = Return ((c2, B), p2)"
    by (rule parse_conditional_fuel [OF pc2]) simp_all
  have n2: "parse_next_if_conditional (Suc (Suc (Suc n))) ts p1
      = Return (Some (ElseIfNode c2 B (Some (ElseNode (Some C)))), p3 + 1)"
    using t1 pc2' n1
    by (simp add: parse_next_if_conditional.simps(2) [of "Suc (Suc n)"] validate_token_def if_statement_tokens_def)
  have pc1': "parse_conditional (Suc (Suc (Suc n))) ts (cur + 1) = Return ((c1, A), p1)"
    by (rule parse_conditional_fuel [OF pc1]) simp_all
  have "parse_if_statement (Suc (Suc (Suc (Suc n)))) ts cur
      = Return (IfNode c1 A (Some (ElseIfNode c2 B (Some (ElseNode (Some C))))), p3 + 1)"
    using t0 pc1' n2 by (simp add: parse_if_statement.simps(2) [of "Suc (Suc (Suc n))"] validate_token_def)
  then show "parse_if_statement (n + 4) ts cur
      = Return (IfNode c1 A (Some (ElseIfNode c2 B (Some (ElseNode (Some C))))), p3 + 1)"
    by (simp add: eval_nat_numeral)
next
  assume t0: "retrieve_token ts cur = Return t0" "get_token_type t0 = IF"
    and pc1: "parse_conditional n ts (cur + 1) = Return ((c1, A), p1)"
    and t1: "retrieve_token ts p1 = Return t1" "get_token_type t1 \<notin> {ELSEIF, ELSE}"
  have n1: "parse_next_if_conditional (Suc n) ts p1 = Return (None, p1)"
    using t1 by (simp add: parse_next_if_conditional.simps)
  have pc1': "parse_conditional (Suc n) ts (cur + 1) = Return ((c1, A), p1)"
    by (rule parse_conditional_fuel [OF pc1]) simp_all
  have "parse_if_statement (Suc (Suc n)) ts cur = Return (IfNode c1 A None, p1)"
    using t0 pc1' n1 by (simp add: parse_if_statement.simps(2) [of "Suc n"] validate_token_def)
  then show "parse_if_statement (n + 2) ts cur = Return (IfNode c1 A None, p1)"
    by (simp add: eval_nat_numeral)
qed

definition demo_chain :: "unit token list" where
  "demo_chain =
    [\<lparr>get_token_type = IF, get_lexeme = ''if'', get_literal = (), get_line = 1\<rparr>,
     \<lparr>get_token_type = LEFT_PAREN, get_lexeme = ''('', get_literal = (), get_line = 1\<rparr>,
     \<lparr>get_token_type = IDENTIFIER, get_lexeme = ''c1'', get_literal = (), get_line = 1\<rparr>,
     \<lparr>get_token_type = RIGHT_PAREN, get_lexeme = '')'', get_literal = (), get_line = 1\<rparr>,
     \<lparr>get_token_type = LEFT_BRACE, get_lexeme = ''{'', get_literal = (), get_line = 1\<rparr>,
     \<lparr>get_token_type = PRINT, get_lexeme = ''print'', get_literal = (), get_line = 2\<rparr>,
     \<lparr>get_token_type = IDENTIFIER, get_lexeme = ''a'', get_literal = (), get_line = 2\<rparr>,
     \<lparr>get_token_type = SEMI_COLON, get_lexeme = '';'', get_literal = (), get_line = 2\<rparr>,
     \<lparr>get_token_type = RIGHT_BRACE, get_lexeme = ''}'', get_literal = (), get_line = 3\<rparr>,
     \<lparr>get_token_type = ELSEIF, get_lexeme = ''elseif'', get_literal = (), get_line = 3\<rparr>,
     \<lparr>get_token_type = LEFT_PAREN, get_lexeme = ''('', get_literal = (), get_line = 3\<rparr>,
     \<lparr>get_token_type = IDENTIFIER, get_lexeme = ''c2'', get_literal = (), get_line = 3\<rparr>,
     \<lparr>get_token_type = RIGHT_PAREN, get_lexeme = '')'', get_literal = (), get_line = 3\<rparr>,
     \<lparr>get_token_type = LEFT_BRACE, get_lexeme = ''{'', get_literal = (), get_line = 3\<rparr>,
     \<lparr>get_token_type = PRINT, get_lexeme = ''print'', get_literal = (), get_line = 4\<rparr>,
     \<lparr>get_token_type = IDENTIFIER, get_lexeme = ''b'', get_literal = (), get_line = 4\<rparr>,
     \<lparr>get_token_type = SEMI_COLON, get_lexeme = '';'', get_literal = (), get_line = 4\<rparr>,
     \<lparr>get_token_type = RIGHT_BRACE, get_lexeme = ''}'', get_literal = (), get_line = 5\<rparr>,
     \<lparr>get_token_type = ELSE, get_lexeme = ''else'', get_literal = (), get_line = 5\<rparr>,
     \<lparr>get_token_type = LEFT_BRACE, get_lexeme = ''{'', get_literal = (), get_line = 5\<rparr>,
     \<lparr>get_token_type = PRINT, get_lexeme = ''print'', get_literal = (), get_line = 6\<rparr>,
     \<lparr>get_token_type = IDENTIFIER, get_lexeme = ''c'', get_literal = (), get_line = 6\<rparr>,
     \<lparr>get_token_type = SEMI_COLON, get_lexeme = '';'', get_literal = (), get_line = 6\<rparr>,
     \<lparr>get_token_type = RIGHT_BRACE, get_lexeme = ''}'', get_literal = (), get_line = 7\<rparr>,
     \<lparr>get_token_type = EOF, get_lexeme = '''', get_literal = (), get_line = 8\<rparr>]"

definition demo_single :: "unit token list" where
  "demo_single =
    [\<lparr>get_token_type = IF, get_lexeme = ''if'', get_literal = (), get_line = 1\<rparr>,
     \<lparr>get_token_type = LEFT_PAREN, get_lexeme = ''('', get_literal = (), get_line = 1\<rparr>,
     \<lparr>get_token_type = IDENTIFIER, get_lexeme = ''c1'', get_literal = (), get_line = 1\<rparr>,
     \<lparr>get_token_type = RIGHT_PAREN, get_lexeme = '')'', get_literal = (), get_line = 1\<rparr>,
     \<lparr>get_token_type = LEFT_BRACE, get_lexeme = ''{'', get_literal = (), get_line = 1\<rparr>,
     \<lparr>get_token_type = PRINT, get_lexeme = ''print'', get_literal = (), get_line = 2\<rparr>,
     \<lparr>get_token_type = IDENTIFIER, get_lexeme = ''a'', get_literal = (), get_line = 2\<rparr>,
     \<lparr>get_token_type = SEMI_COLON, get_lexeme = '';'', get_literal = (), get_line = 2\<rparr>,
     \<lparr>get_token_type = RIGHT_BRACE, get_lexeme = ''}'', get_literal = (), get_line = 3\<rparr>,
     \<lparr>get_token_type = EOF, get_lexeme = '''', get_literal = (), get_line = 4\<rparr>]"

theorem if_chain_shape_witness:
  "parse_if_statement 44 demo_chain 0
     = Return (IfNode (Some (VariableNode ''c1'')) (BlockNode [Some (PrintNode (Some (VariableNode ''a'')))])
         (Some (ElseIfNode (Some (VariableNode ''c2'')) (BlockNode [Some (PrintNode (Some (VariableNode ''b'')))])
           (Some (ElseNode (Some (BlockNode [Some (PrintNode (Some (VariableNode ''c'')))])))))), 24)
   \<and> parse_if_statement 42 demo_single 0
     = Return (IfNode (Some (VariableNode ''c1'')) (BlockNode [Some (PrintNode (Some (VariableNode ''a'')))])
         None, 9)"
  using if_chain_shape [where ts = demo_chain and cur = 0 and n = 40 and ?t0.0 = "demo_chain ! 0"
      and ?c1.0 = "Some (VariableNode ''c1'')"
      and A = "BlockNode [Some (PrintNode (Some (VariableNode ''a'')))]" and ?p1.0 = 9
      and ?t1.0 = "demo_chain ! 9" and ?c2.0 = "Some (VariableNode ''c2'')"
      and B = "BlockNode [Some (PrintNode (Some (VariableNode ''b'')))]" and ?p2.0 = 18
      and ?t2.0 = "demo_chain ! 18" and ?t3.0 = "demo_chain ! 19"
      and C = "BlockNode [Some (PrintNode (Some (VariableNode ''c'')))]" and ?p3.0 = 23]
    if_chain_shape [where ts = demo_single and cur = 0 and n = 40 and ?t0.0 = "demo_single ! 0"
      and ?c1.0 = "Some (VariableNode ''c1'')"
      and A = "BlockNode [Some (PrintNode (Some (VariableNode ''a'')))]" and ?p1.0 = 9
      and ?t1.0 = "demo_single ! 9"]
  by (simp add: demo_chain_def demo_single_def eval_simps eval_nat_numeral)

section \<open>Calls that return for some fuel\<close>

text \<open>A call yields an outcome when some fuel gives it; by the lemmas of the section on
  fuel every larger fuel then gives the same outcome.\<close>

definition yields :: "(nat \<Rightarrow> 'a result) \<Rightarrow> 'a result \<Rightarrow> bool" where
  "yields f v \<longleftrightarrow> v \<noteq> Timeout \<and> (\<exists>n. f n = v)"

lemma yieldsI: "f n = v \<Longrightarrow> v \<noteq> Timeout \<Longrightarrow> yields f v"
  by (auto simp: yields_def)

lemma yieldsE: "yields f v \<Longrightarrow> (\<And>n. f n = v \<Longrightarrow> v \<noteq> Timeout \<Longrightarrow> P) \<Longrightarrow> P"
  by (auto simp: yields_def)

text \<open>The index the while loop of the operator search hands to \<^verbatim>\<open>_handle_by_operations\<close>:
  the loop index itself, or the index \<^verbatim>\<open>_skip_parentheses\<close> gives when the token there is an
  opening parenthesis.\<close>

definition scan_index :: "'v token list \<Rightarrow> int \<Rightarrow> int \<Rightarrow> int result" where
  "scan_index ts right_index index =
     bind_result (retrieve_token ts index) (\<lambda>token.
       if get_token_type token = LEFT_PAREN
       then skip_parentheses ts index right_index else Return index)"

lemma find_parenthesis_count_while_from:
  "find_parenthesis_count_while ts r c i = Return (c', e) \<Longrightarrow> i \<le> e"
proof (induction ts r c i rule: find_parenthesis_count_while.induct)
  case (1 ts right_index paren_counter current_index)
  show ?case
  proof (cases "current_index \<le> right_index")
    case False
    with "1.prems" show ?thesis
      by (subst (asm) find_parenthesis_count_while.simps) simp
  next
    case True
    with "1.prems" obtain t where t: "retrieve_token ts current_index = Return t"
      by (subst (asm) find_parenthesis_count_while.simps) (auto split: result.splits)
    define c1 where "c1 = (if get_token_type t = LEFT_PAREN then paren_counter + 1 else paren_counter)"
    define c2 where "c2 = (if get_token_type t = RIGHT_PAREN then c1 - 1 else c1)"
    have eq: "find_parenthesis_count_while ts right_index paren_counter current_index
        = (if c2 = 0 then Return (c2, current_index)
           else find_parenthesis_count_while ts right_index c2 (current_index + 1))"
      using True t
      by (subst find_parenthesis_count_while.simps) (simp add: c1_def c2_def Let_def)
    show ?thesis
    proof (cases "c2 = 0")
      case True
      with "1.prems" eq show ?thesis by simp
    next
      case False
      with "1.prems" eq
      have "find_parenthesis_count_while ts right_index c2 (current_index + 1) = Return (c', e)"
        by simp
      from "1.IH" [OF \<open>current_index \<le> right_index\<close> t c1_def c2_def False this]
      show ?thesis by simp
    qed
  qed
qed

lemma scan_index_bounds:
  assumes "scan_index ts r i = Return q" "i < r"
  shows "i \<le> q \<and> q \<le> r"
proof -
  from assms(1) obtain t where t: "retrieve_token ts i = Return t"
    by (auto simp: scan_index_def bind_result_eq_Return)
  show ?thesis
  proof (cases "get_token_type t = LEFT_PAREN")
    case False
    with assms t show ?thesis by (simp add: scan_index_def)
  next
    case True
    with assms t obtain pc e where "find_parenthesis_count ts i r = Return (pc, e)" "q = min (e + 1) r"
      by (auto simp: scan_index_def skip_parentheses_def bind_result_eq_Return)
    then obtain pc' where "find_parenthesis_count_while ts r 0 i = Return (pc', e)"
      by (auto simp: find_parenthesis_count_def bind_result_eq_Return split: if_splits)
    from find_parenthesis_count_while_from [OF this] \<open>q = min (e + 1) r\<close> assms(2)
    show ?thesis by simp
  qed
qed

text \<open>The indices that loop inspects from a given index on, when no operator of the tier
  is met: the loop of \<^verbatim>\<open>_parse_expression_recursive\<close> with the test left out. These are the
  positions of the range outside parentheses, as the parser sees them.\<close>

function scan_positions :: "'v token list \<Rightarrow> int \<Rightarrow> int \<Rightarrow> int list result" where
  "scan_positions ts right_index index =
     (if index < right_index then
        bind_result (scan_index ts right_index index) (\<lambda>index1.
        bind_result (scan_positions ts right_index (index1 + 1)) (\<lambda>rest.
          Return (index1 # rest)))
      else Return [])"
  by pat_completeness auto
termination
  by (relation "measure (\<lambda>(ts, r, i). nat (r - i))") (auto dest: scan_index_bounds)

declare scan_positions.simps [simp del]

lemma scan_positions_Cons:
  assumes "scan_positions ts r i = Return (q # qs)"
  shows "i < r \<and> scan_index ts r i = Return q \<and> scan_positions ts r (q + 1) = Return qs"
proof -
  have lt: "i < r"
    using assms by (subst (asm) scan_positions.simps) (auto split: if_splits)
  with assms show ?thesis
    by (subst (asm) scan_positions.simps) (auto simp: bind_result_eq_Return)
qed

lemma scan_positions_Nil:
  assumes "scan_positions ts r i = Return []"
  shows "\<not> i < r"
  using assms by (subst (asm) scan_positions.simps) (auto simp: bind_result_eq_Return split: if_splits)

text \<open>One step of each loop and call, for some fuel.\<close>

lemma while_index_end:
  "\<not> i < r \<Longrightarrow> yields (\<lambda>n. while_index n ts cur T l r i) (Return (None, cur))"
  by (rule yieldsI [of _ "Suc 0"]) (simp_all add: while_index.simps)

lemma while_index_miss:
  assumes "i < r" "scan_index ts r i = Return q"
    and "retrieve_token ts q = Return t" "get_token_type t \<notin> T"
    and "yields (\<lambda>n. while_index n ts cur T l r (q + 1)) v"
  shows "yields (\<lambda>n. while_index n ts cur T l r i) v"
proof -
  from assms(5) obtain n where n: "while_index n ts cur T l r (q + 1) = v" and v: "v \<noteq> Timeout"
    by (rule yieldsE)
  have n': "while_index (Suc n) ts cur T l r (q + 1) = v"
    by (rule while_index_fuel [OF n v]) simp
  have h: "handle_by_operations (Suc n) ts cur T l r q = Return (None, cur)"
    using assms(3,4) by (simp add: handle_by_operations.simps)
  from assms(2) obtain tok where tok: "retrieve_token ts i = Return tok"
    and q: "(if get_token_type tok = LEFT_PAREN then skip_parentheses ts i r else Return i) = Return q"
    by (auto simp: scan_index_def bind_result_eq_Return)
  have "while_index (Suc (Suc n)) ts cur T l r i = v"
    using assms(1) tok q h n' by (simp add: while_index.simps(2) [of "Suc n"])
  then show ?thesis using v by (rule yieldsI)
qed

lemma while_index_hit:
  assumes "i < r" "scan_index ts r i = Return q"
    and "yields (\<lambda>n. handle_by_operations n ts cur T l r q) v" "\<And>c. v \<noteq> Return (None, c)"
  shows "yields (\<lambda>n. while_index n ts cur T l r i) v"
proof -
  from assms(3) obtain n where n: "handle_by_operations n ts cur T l r q = v" and v: "v \<noteq> Timeout"
    by (rule yieldsE)
  from assms(2) obtain tok where tok: "retrieve_token ts i = Return tok"
    and q: "(if get_token_type tok = LEFT_PAREN then skip_parentheses ts i r else Return i) = Return q"
    by (auto simp: scan_index_def bind_result_eq_Return)
  have "while_index (Suc n) ts cur T l r i = v"
  proof (cases v)
    case Timeout
    with v show ?thesis by simp
  next
    case (Raise e)
    with assms(1) tok q n show ?thesis by (simp add: while_index.simps)
  next
    case (Return x)
    obtain nd c where x: "x = (nd, c)" by (cases x)
    with Return assms(4) [of c] obtain found where "nd = Some found" by (cases nd) auto
    with assms(1) tok q n Return x show ?thesis by (simp add: while_index.simps)
  qed
  then show ?thesis using v by (rule yieldsI)
qed

lemma for_operators_miss:
  assumes "yields (\<lambda>n. while_index n ts cur T l r l) (Return (None, c))"
    and "yields (\<lambda>n. for_operators n ts c Ts l r) v"
  shows "yields (\<lambda>n. for_operators n ts cur (T # Ts) l r) v"
proof -
  from assms(1) obtain n1 where n1: "while_index n1 ts cur T l r l = Return (None, c)"
    by (rule yieldsE)
  from assms(2) obtain n2 where n2: "for_operators n2 ts c Ts l r = v" and v: "v \<noteq> Timeout"
    by (rule yieldsE)
  have a: "while_index (max n1 n2) ts cur T l r l = Return (None, c)"
    by (rule while_index_fuel [OF n1]) simp_all
  have b: "for_operators (max n1 n2) ts c Ts l r = v"
    by (rule for_operators_fuel [OF n2 v]) simp
  have "for_operators (Suc (max n1 n2)) ts cur (T # Ts) l r = v"
    using a b by (simp add: for_operators.simps)
  then show ?thesis using v by (rule yieldsI)
qed

lemma for_operators_hit:
  assumes "yields (\<lambda>n. while_index n ts cur T l r l) v" "\<And>c. v \<noteq> Return (None, c)"
  shows "yields (\<lambda>n. for_operators n ts cur (T # Ts) l r) v"
proof -
  from assms(1) obtain n where n: "while_index n ts cur T l r l = v" and v: "v \<noteq> Timeout"
    by (rule yieldsE)
  have "for_operators (Suc n) ts cur (T # Ts) l r = v"
  proof (cases v)
    case Timeout
    with v show ?thesis by simp
  next
    case (Raise e)
    with n show ?thesis by (simp add: for_operators.simps)
  next
    case (Return x)
    obtain nd c where x: "x = (nd, c)" by (cases x)
    with Return assms(2) [of c] obtain found where "nd = Some found" by (cases nd) auto
    with n Return x show ?thesis by (simp add: for_operators.simps)
  qed
  then show ?thesis using v by (rule yieldsI)
qed

lemma handle_by_operations_unary:
  assumes "retrieve_token ts q = Return t" "get_token_type t \<in> T"
    and "get_token_type t \<in> unary_operations"
    and "yields (\<lambda>n. handle_unary_operation n ts cur q r) v"
  shows "yields (\<lambda>n. handle_by_operations n ts cur T l r q) v"
proof -
  from assms(4) obtain n where n: "handle_unary_operation n ts cur q r = v" and v: "v \<noteq> Timeout"
    by (rule yieldsE)
  have "handle_by_operations (Suc n) ts cur T l r q = v"
    using assms(1-3) n by (simp add: handle_by_operations.simps)
  then show ?thesis using v by (rule yieldsI)
qed

lemma handle_by_operations_binary:
  assumes "retrieve_token ts q = Return t" "get_token_type t \<in> T"
    and "get_token_type t \<notin> unary_operations"
    and "yields (\<lambda>n. handle_binary_operation n ts cur l q r) v"
  shows "yields (\<lambda>n. handle_by_operations n ts cur T l r q) v"
proof -
  from assms(4) obtain n where n: "handle_binary_operation n ts cur l q r = v" and v: "v \<noteq> Timeout"
    by (rule yieldsE)
  have "handle_by_operations (Suc n) ts cur T l r q = v"
    using assms(1-3) n by (simp add: handle_by_operations.simps)
  then show ?thesis using v by (rule yieldsI)
qed

lemma handle_unary_operation_not:
  assumes "retrieve_token ts i = Return t" "get_token_type t = BANG"
    and "yields (\<lambda>n. parse_expression_recursive n ts cur (i + 1) r) (Return (Some operand, c))"
  shows "yields (\<lambda>n. handle_unary_operation n ts cur i r) (Return (Some (NotNode operand), c))"
proof -
  from assms(3) obtain n where
    n: "parse_expression_recursive n ts cur (i + 1) r = Return (Some operand, c)"
    by (rule yieldsE)
  have n': "parse_expression_recursive (Suc n) ts cur (i + 1) r = Return (Some operand, c)"
    by (rule parse_expression_recursive_fuel [OF n]) simp_all
  have h: "handle_token (Suc n) ts c (Some i) (Some (UnaryOperationContext operand))
      = Return (Some (NotNode operand), c)"
    using assms(1,2)
    by (simp add: handle_token.simps literal_types_def operation_types_def parse_operation_def
          binary_operation_map_def)
  have "handle_unary_operation (Suc (Suc n)) ts cur i r = Return (Some (NotNode operand), c)"
    using assms(1) n' h by (simp add: handle_unary_operation.simps(2) [of "Suc n"])
  then show ?thesis by (rule yieldsI) simp
qed

lemma binary_kind_facts:
  assumes "binary_operation_map k = Some mk"
  shows "k \<notin> {PRINT, IDENTIFIER, VAR, IF}" "k \<notin> literal_types" "k \<in> operation_types"
    "k \<notin> unary_operations" "k \<noteq> LEFT_PAREN" "k \<notin> valid_print_types"
  using assms
  by (auto simp: binary_operation_map_def literal_types_def operation_types_def
        unary_operations_def valid_print_types_def split: if_splits)

lemma handle_binary_operation_node:
  assumes "retrieve_token ts i = Return t" "binary_operation_map (get_token_type t) = Some mk"
    and "yields (\<lambda>n. parse_expression_recursive n ts cur l (i - 1)) (Return (Some left, c1))"
    and "yields (\<lambda>n. parse_expression_recursive n ts c1 (i + 1) r) (Return (Some right, c2))"
  shows "yields (\<lambda>n. handle_binary_operation n ts cur l i r) (Return (Some (mk left right), c2))"
proof -
  from assms(3) obtain n1 where
    n1: "parse_expression_recursive n1 ts cur l (i - 1) = Return (Some left, c1)"
    by (rule yieldsE)
  from assms(4) obtain n2 where
    n2: "parse_expression_recursive n2 ts c1 (i + 1) r = Return (Some right, c2)"
    by (rule yieldsE)
  define n where "n = Suc (max n1 n2)"
  have a: "parse_expression_recursive n ts cur l (i - 1) = Return (Some left, c1)"
    by (rule parse_expression_recursive_fuel [OF n1]) (simp_all add: n_def)
  have b: "parse_expression_recursive n ts c1 (i + 1) r = Return (Some right, c2)"
    by (rule parse_expression_recursive_fuel [OF n2]) (simp_all add: n_def)
  have h: "handle_token n ts c2 (Some i) (Some (BinaryOperationContext left right))
      = Return (Some (mk left right), c2)"
    using assms(1,2) binary_kind_facts(1-3) [OF assms(2)]
    by (simp add: n_def handle_token.simps parse_operation_def)
  have "handle_binary_operation (Suc n) ts cur l i r = Return (Some (mk left right), c2)"
    using assms(1) a b h by (simp add: handle_binary_operation.simps)
  then show ?thesis by (rule yieldsI) simp
qed

text \<open>The leaf a single identifier or literal token resolves to.\<close>

definition operand_node :: "'v token \<Rightarrow> 'v node" where
  "operand_node t =
     (if get_token_type t = IDENTIFIER then VariableNode (get_lexeme t)
      else if get_token_type t = STRING then StringLiteralNode (get_literal t)
      else if get_token_type t = NUMBER then NumberLiteralNode (get_literal t)
      else BooleanLiteralNode (get_token_type t = TRUE))"

lemma parse_expression_recursive_leaf:
  assumes "retrieve_token ts l = Return t" "get_token_type t \<in> valid_print_types"
  shows "yields (\<lambda>n. parse_expression_recursive n ts cur l l) (Return (Some (operand_node t), cur))"
proof -
  have "parse_expression_recursive (Suc (Suc 0)) ts cur l l = Return (Some (operand_node t), cur)"
    using assms
    by (auto simp: parse_expression_recursive.simps handle_token.simps operand_node_def
          valid_expression_types_def valid_print_types_def literal_types_def
          parse_identifier_token_def parse_literal_def)
  then show ?thesis by (rule yieldsI) simp
qed

lemma parse_expression_recursive_search:
  assumes "retrieve_token ts l = Return ltok" "retrieve_token ts r = Return rtok" "r \<noteq> l"
    and "is_nested_parens ts l r = Return False"
    and "yields (\<lambda>n. for_operators n ts cur operator_precedence l r) v"
  shows "yields (\<lambda>n. parse_expression_recursive n ts cur l r) v"
proof -
  from assms(5) obtain n where n: "for_operators n ts cur operator_precedence l r = v"
    and v: "v \<noteq> Timeout"
    by (rule yieldsE)
  have "parse_expression_recursive (Suc n) ts cur l r = v"
    using assms(1-4) n by (simp add: parse_expression_recursive.simps)
  then show ?thesis using v by (rule yieldsI)
qed

section \<open>The operator search over a range\<close>

lemma while_index_scan_none:
  assumes "scan_positions ts r i = Return ps"
    and "\<forall>q \<in> set ps. \<exists>t. retrieve_token ts q = Return t \<and> get_token_type t \<notin> T"
  shows "yields (\<lambda>n. while_index n ts cur T l r i) (Return (None, cur))"
  using assms
proof (induction ps arbitrary: i)
  case Nil
  from scan_positions_Nil [OF Nil.prems(1)] show ?case by (rule while_index_end)
next
  case (Cons q qs)
  from scan_positions_Cons [OF Cons.prems(1)]
  have i: "i < r" and q: "scan_index ts r i = Return q"
    and qs: "scan_positions ts r (q + 1) = Return qs"
    by auto
  from Cons.prems(2) obtain t where t: "retrieve_token ts q = Return t" "get_token_type t \<notin> T"
    by auto
  from Cons.prems(2) have "\<forall>q \<in> set qs. \<exists>t. retrieve_token ts q = Return t \<and> get_token_type t \<notin> T"
    by simp
  from while_index_miss [OF i q t Cons.IH [OF qs this]] show ?case .
qed

lemma while_index_scan_hit:
  assumes "scan_positions ts r i = Return (before @ p # after)"
    and "\<forall>q \<in> set before. \<exists>t. retrieve_token ts q = Return t \<and> get_token_type t \<notin> T"
    and "yields (\<lambda>n. handle_by_operations n ts cur T l r p) v" "\<And>c. v \<noteq> Return (None, c)"
  shows "yields (\<lambda>n. while_index n ts cur T l r i) v"
  using assms(1,2)
proof (induction before arbitrary: i)
  case Nil
  from scan_positions_Cons [of ts r i p after] Nil.prems(1)
  have i: "i < r" and q: "scan_index ts r i = Return p" by auto
  from while_index_hit [OF i q assms(3,4)] show ?case .
next
  case (Cons q qs)
  from scan_positions_Cons [of ts r i q "qs @ p # after"] Cons.prems(1)
  have i: "i < r" and q: "scan_index ts r i = Return q"
    and qs: "scan_positions ts r (q + 1) = Return (qs @ p # after)"
    by auto
  from Cons.prems(2) obtain t where t: "retrieve_token ts q = Return t" "get_token_type t \<notin> T"
    by auto
  from Cons.prems(2) have "\<forall>q \<in> set qs. \<exists>t. retrieve_token ts q = Return t \<and> get_token_type t \<notin> T"
    by simp
  from while_index_miss [OF i q t Cons.IH [OF qs this]] show ?case .
qed

lemma for_operators_search:
  assumes "\<And>S. S \<in> set Ts1 \<Longrightarrow> yields (\<lambda>n. while_index n ts cur S l r l) (Return (None, cur))"
    and "yields (\<lambda>n. while_index n ts cur T l r l) v" "\<And>c. v \<noteq> Return (None, c)"
  shows "yields (\<lambda>n. for_operators n ts cur (Ts1 @ T # Ts2) l r) v"
  using assms(1)
proof (induction Ts1)
  case Nil
  from for_operators_hit [OF assms(2,3)] show ?case by simp
next
  case (Cons S Ss)
  have "yields (\<lambda>n. for_operators n ts cur (Ss @ T # Ts2) l r) v"
    by (rule Cons.IH) (simp add: Cons.prems)
  from for_operators_miss [OF Cons.prems [of S] this] show ?case by simp
qed

lemma scan_positions_past: "\<not> i < r \<Longrightarrow> scan_positions ts r i = Return []"
  by (subst scan_positions.simps) simp

lemma not_nested_when_scanned:
  assumes "retrieve_token ts l = Return ltok" "retrieve_token ts r = Return rtok"
    and "scan_positions ts r l = Return ps" "p \<in> set ps"
    and "retrieve_token ts p = Return ptok" "get_token_type ptok \<noteq> RIGHT_PAREN"
  shows "is_nested_parens ts l r = Return False"
proof (cases "get_token_type ltok = LEFT_PAREN \<and> get_token_type rtok = RIGHT_PAREN")
  case False
  with assms(1,2) show ?thesis by (auto simp: is_nested_parens_def within_parens_def)
next
  case True
  from assms(3,4) obtain q qs where ps: "ps = q # qs" by (cases ps) auto
  from scan_positions_Cons [OF assms(3) [unfolded ps]]
  have q: "scan_index ts r l = Return q" and qs: "scan_positions ts r (q + 1) = Return qs"
    by auto
  from q assms(1) True obtain pc e where
    f: "find_parenthesis_count ts l r = Return (pc, e)" and qe: "q = min (e + 1) r"
    by (auto simp: scan_index_def skip_parentheses_def bind_result_eq_Return)
  show ?thesis
  proof (cases "pc = 0 \<and> e = r")
    case False
    with assms(1,2) True f show ?thesis
      by (auto simp: is_nested_parens_def within_parens_def)
  next
    case True
    with qe have "q = r" by simp
    with qs have "qs = []" by (simp add: scan_positions_past)
    with ps \<open>q = r\<close> assms(4) have "p = r" by simp
    with assms(2,5,6) \<open>get_token_type ltok = LEFT_PAREN \<and> get_token_type rtok = RIGHT_PAREN\<close>
    show ?thesis by simp
  qed
qed

lemma scan_positions_plain:
  assumes "\<forall>q. i \<le> q \<and> q < r \<longrightarrow> (\<exists>t. retrieve_token ts q = Return t \<and> get_token_type t \<noteq> LEFT_PAREN)"
  shows "scan_positions ts r i = Return [i..r - 1]"
  using assms
proof (induction "nat (r - i)" arbitrary: i)
  case 0
  then have "\<not> i < r" by simp
  then show ?case by (simp add: scan_positions_past)
next
  case (Suc k)
  then have i: "i < r" by simp
  with Suc.prems obtain t where t: "retrieve_token ts i = Return t" "get_token_type t \<noteq> LEFT_PAREN"
    by auto
  have ih: "scan_positions ts r (i + 1) = Return [i + 1..r - 1]"
    using Suc.hyps(2) Suc.prems by (intro Suc.hyps(1)) auto
  have "[i..r - 1] = i # [i + 1..r - 1]"
    using i by (simp add: upto_rec1)
  with i t ih show ?case
    by (subst scan_positions.simps) (simp add: scan_index_def)
qed

text \<open>The tier of an operator: the tiers before it do not hold it.\<close>

lemma tier_of_operation:
  assumes "\<exists>S \<in> set operator_precedence. k \<in> S"
  shows "\<exists>Ts1 T Ts2. operator_precedence = Ts1 @ T # Ts2 \<and> k \<in> T \<and> (\<forall>S \<in> set Ts1. k \<notin> S)"
proof -
  from split_list_first_prop [OF assms] show ?thesis by blast
qed

lemma binary_kind_in_tier:
  "binary_operation_map k = Some mk \<Longrightarrow> \<exists>S \<in> set operator_precedence. k \<in> S"
  by (auto simp: binary_operation_map_def operator_precedence_def split: if_splits)



lemma range_splits_at_scan_hit:
  assumes "retrieve_token ts l = Return ltok" "retrieve_token ts r = Return rtok"
    and "scan_positions ts r l = Return (before @ p # after)"
    and "operator_precedence = lower @ T # higher"
    and "\<forall>q \<in> set (before @ p # after).
           \<exists>t. retrieve_token ts q = Return t \<and> (\<forall>S \<in> set lower. get_token_type t \<notin> S)"
    and "\<forall>q \<in> set before. \<exists>t. retrieve_token ts q = Return t \<and> get_token_type t \<notin> T"
    and "retrieve_token ts p = Return ptok" "get_token_type ptok \<noteq> RIGHT_PAREN"
    and "yields (\<lambda>n. handle_by_operations n ts cur T l r p) v" "\<And>c. v \<noteq> Return (None, c)"
  shows "yields (\<lambda>n. parse_expression_recursive n ts cur l r) v"
proof -
  have lr: "l < r"
    using scan_positions_Cons [of ts r l] assms(3) by (cases before) auto
  have nested: "is_nested_parens ts l r = Return False"
    by (rule not_nested_when_scanned [OF assms(1,2,3) _ assms(7,8)]) simp
  have none: "yields (\<lambda>n. while_index n ts cur S l r l) (Return (None, cur))"
    if "S \<in> set lower" for S
  proof (rule while_index_scan_none [OF assms(3)])
    from assms(5) that show "\<forall>q \<in> set (before @ p # after).
        \<exists>t. retrieve_token ts q = Return t \<and> get_token_type t \<notin> S"
      by blast
  qed
  have "yields (\<lambda>n. while_index n ts cur T l r l) v"
    by (rule while_index_scan_hit [OF assms(3,6,9,10)])
  then have "yields (\<lambda>n. for_operators n ts cur operator_precedence l r) v"
    unfolding assms(4) by (intro for_operators_search none assms(10))
  with assms(1,2) lr nested show ?thesis
    by (intro parse_expression_recursive_search) auto
qed

section \<open>The order of the precedence tiers\<close>

text \<open>Following the spec's words (operator search): the precedence tiers, lowest precedence
  first: or; and; the comparisons; unary not; plus and minus; times, divide and modulus;
  power.\<close>

definition tiers_lowest_first :: "TokenType set list" where
  "tiers_lowest_first =
     [{OR}, {AND}, {EQUAL_EQUAL, BANG_EQUAL, LESS, LESS_EQUAL, GREATER, GREATER_EQUAL},
      {BANG}, {PLUS, MINUS}, {MULTIPLY, DIVIDE, MODULUS}, {EXPONENT}]"

text \<open>Following the spec's words: \<open>T\<close> is the first of these tiers with a member among the
  positions of the range \<open>[l, r]\<close> outside parentheses (no position holds a kind of an
  earlier tier), and \<open>p\<close> is the first of these positions whose kind is in \<open>T\<close>.\<close>

definition first_of_lowest_tier :: "'v token list \<Rightarrow> int \<Rightarrow> int \<Rightarrow> TokenType set \<Rightarrow> int \<Rightarrow> bool" where
  "first_of_lowest_tier ts l r T p \<longleftrightarrow>
     (\<exists>ltok. retrieve_token ts l = Return ltok) \<and> (\<exists>rtok. retrieve_token ts r = Return rtok)
     \<and> (\<exists>ptok. retrieve_token ts p = Return ptok \<and> get_token_type ptok \<in> T)
     \<and> (\<exists>lower higher before after.
           tiers_lowest_first = lower @ T # higher
           \<and> scan_positions ts r l = Return (before @ p # after)
           \<and> (\<forall>q \<in> set (before @ p # after).
                 \<exists>t. retrieve_token ts q = Return t \<and> (\<forall>S \<in> set lower. get_token_type t \<notin> S))
           \<and> (\<forall>q \<in> set before. \<exists>t. retrieve_token ts q = Return t \<and> get_token_type t \<notin> T))"

lemma first_of_lowest_tierI:
  assumes "retrieve_token ts l = Return ltok" "retrieve_token ts r = Return rtok"
    and "retrieve_token ts p = Return ptok" "get_token_type ptok \<in> T"
    and "tiers_lowest_first = lower @ T # higher"
    and "scan_positions ts r l = Return (before @ p # after)"
    and "\<forall>q \<in> set (before @ p # after).
           \<exists>t. retrieve_token ts q = Return t \<and> (\<forall>S \<in> set lower. get_token_type t \<notin> S)"
    and "\<forall>q \<in> set before. \<exists>t. retrieve_token ts q = Return t \<and> get_token_type t \<notin> T"
  shows "first_of_lowest_tier ts l r T p"
  unfolding first_of_lowest_tier_def
  by (intro conjI exI [of _ ltok] exI [of _ rtok] exI [of _ ptok] exI [of _ lower]
        exI [of _ higher] exI [of _ before] exI [of _ after] assms)

lemma operator_precedence_lowest_first: "operator_precedence = tiers_lowest_first"
  unfolding operator_precedence_def tiers_lowest_first_def by auto

lemma first_of_lowest_tierE:
  assumes "first_of_lowest_tier ts l r T p"
  obtains ltok rtok ptok lower higher before after where
    "retrieve_token ts l = Return ltok" "retrieve_token ts r = Return rtok"
    "retrieve_token ts p = Return ptok" "get_token_type ptok \<in> T"
    "tiers_lowest_first = lower @ T # higher"
    "scan_positions ts r l = Return (before @ p # after)"
    "\<forall>q \<in> set (before @ p # after).
       \<exists>t. retrieve_token ts q = Return t \<and> (\<forall>S \<in> set lower. get_token_type t \<notin> S)"
    "\<forall>q \<in> set before. \<exists>t. retrieve_token ts q = Return t \<and> get_token_type t \<notin> T"
  using assms [unfolded first_of_lowest_tier_def]
  by (elim conjE exE) (rule that; assumption)

lemma first_of_lowest_tier_split:
  assumes "first_of_lowest_tier ts l r T p" "retrieve_token ts p = Return ptok"
    and "get_token_type ptok \<noteq> RIGHT_PAREN"
    and "yields (\<lambda>n. handle_by_operations n ts cur T l r p) v" "\<And>c. v \<noteq> Return (None, c)"
  shows "yields (\<lambda>n. parse_expression_recursive n ts cur l r) v"
proof -
  from assms(1) obtain ltok rtok ptok' lower higher before after where
    l: "retrieve_token ts l = Return ltok" and r: "retrieve_token ts r = Return rtok"
    and tiers: "tiers_lowest_first = lower @ T # higher"
    and scan: "scan_positions ts r l = Return (before @ p # after)"
    and low: "\<forall>q \<in> set (before @ p # after).
           \<exists>t. retrieve_token ts q = Return t \<and> (\<forall>S \<in> set lower. get_token_type t \<notin> S)"
    and first: "\<forall>q \<in> set before. \<exists>t. retrieve_token ts q = Return t \<and> get_token_type t \<notin> T"
    by (rule first_of_lowest_tierE)
  have op: "operator_precedence = lower @ T # higher"
    using tiers by (simp add: operator_precedence_lowest_first)
  show ?thesis
    by (rule range_splits_at_scan_hit [OF l r scan op low first assms(2,3,4,5)])
qed

lemma first_of_lowest_tier_kind:
  assumes "first_of_lowest_tier ts l r T p" "retrieve_token ts p = Return ptok"
  shows "get_token_type ptok \<in> T"
  using assms(1)
proof (rule first_of_lowest_tierE)
  fix ptok' assume "retrieve_token ts p = Return ptok'" "get_token_type ptok' \<in> T"
  with assms(2) show ?thesis by simp
qed

lemma binary_kind_not_right_paren: "binary_operation_map k = Some mk \<Longrightarrow> k \<noteq> RIGHT_PAREN"
  by (auto simp: binary_operation_map_def split: if_splits)

text \<open>C5. The range parser tries the tiers in the order or; and; comparisons; not; plus and
  minus; times, divide and modulus; power, and takes the first hit: for every range, when
  \<open>T\<close> is the first tier in that order with a member among the positions outside
  parentheses and \<open>p\<close> the first such position, the range is split at \<open>p\<close>. For a binary
  operator at \<open>p\<close> with constructor \<open>mk\<close>, if the ranges left and right of \<open>p\<close> parse to
  nodes, the range parses to \<open>mk\<close> of the two; for a not token at \<open>p\<close>, if the range right
  of it parses to a node, the range parses to its Not node. And for any fuel that suffices,
  any values of the number tokens and any tokens after the terminator, the expression
  \<^verbatim>\<open>4 == ( 8 / 2 ) * 3\<close> parses to Equals(4, Multiplication(Division(8, 2), 3)), the cursor
  left on the terminator.\<close>

theorem split_at_first_of_lowest_tier:
  "(first_of_lowest_tier ts l r T p \<and> retrieve_token ts p = Return ptok
      \<and> binary_operation_map (get_token_type ptok) = Some mk
      \<and> yields (\<lambda>n. parse_expression_recursive n ts cur l (p - 1)) (Return (Some left, c1))
      \<and> yields (\<lambda>n. parse_expression_recursive n ts c1 (p + 1) r) (Return (Some right, c2))
     \<longrightarrow> yields (\<lambda>n. parse_expression_recursive n ts cur l r) (Return (Some (mk left right), c2)))
   \<and> (first_of_lowest_tier ts l r T p \<and> retrieve_token ts p = Return ptok
      \<and> get_token_type ptok = BANG
      \<and> yields (\<lambda>n. parse_expression_recursive n ts cur (p + 1) r) (Return (Some operand, c))
     \<longrightarrow> yields (\<lambda>n. parse_expression_recursive n ts cur l r) (Return (Some (NotNode operand), c)))
   \<and> parse_expression (n + 60)
     (a\<lparr>get_token_type := NUMBER\<rparr> # b\<lparr>get_token_type := EQUAL_EQUAL\<rparr>
       # c3\<lparr>get_token_type := LEFT_PAREN\<rparr> # d\<lparr>get_token_type := NUMBER\<rparr>
       # e\<lparr>get_token_type := DIVIDE\<rparr> # f\<lparr>get_token_type := NUMBER\<rparr>
       # g\<lparr>get_token_type := RIGHT_PAREN\<rparr> # h\<lparr>get_token_type := MULTIPLY\<rparr>
       # i\<lparr>get_token_type := NUMBER\<rparr> # j\<lparr>get_token_type := SEMI_COLON\<rparr> # rest) 0
     = Return (Some (EqualsNode (NumberLiteralNode (get_literal a))
               (MultiplicationNode
                  (DivisionNode (NumberLiteralNode (get_literal d)) (NumberLiteralNode (get_literal f)))
                  (NumberLiteralNode (get_literal i)))), 9)"
proof (intro conjI impI; (elim conjE)?)
  assume first: "first_of_lowest_tier ts l r T p" and p: "retrieve_token ts p = Return ptok"
    and mk: "binary_operation_map (get_token_type ptok) = Some mk"
    and left: "yields (\<lambda>n. parse_expression_recursive n ts cur l (p - 1)) (Return (Some left, c1))"
    and right: "yields (\<lambda>n. parse_expression_recursive n ts c1 (p + 1) r) (Return (Some right, c2))"
  from first p have inT: "get_token_type ptok \<in> T"
    by (rule first_of_lowest_tier_kind)
  have "yields (\<lambda>n. handle_binary_operation n ts cur l p r) (Return (Some (mk left right), c2))"
    by (rule handle_binary_operation_node [OF p mk left right])
  then have "yields (\<lambda>n. handle_by_operations n ts cur T l r p) (Return (Some (mk left right), c2))"
    using inT binary_kind_facts(4) [OF mk] by (intro handle_by_operations_binary [OF p])
  then show "yields (\<lambda>n. parse_expression_recursive n ts cur l r) (Return (Some (mk left right), c2))"
    by (intro first_of_lowest_tier_split [OF first p binary_kind_not_right_paren [OF mk]]) simp_all
next
  assume first: "first_of_lowest_tier ts l r T p" and p: "retrieve_token ts p = Return ptok"
    and bang: "get_token_type ptok = BANG"
    and operand: "yields (\<lambda>n. parse_expression_recursive n ts cur (p + 1) r) (Return (Some operand, c))"
  from first p have inT: "get_token_type ptok \<in> T"
    by (rule first_of_lowest_tier_kind)
  have "yields (\<lambda>n. handle_unary_operation n ts cur p r) (Return (Some (NotNode operand), c))"
    by (rule handle_unary_operation_not [OF p bang operand])
  then have "yields (\<lambda>n. handle_by_operations n ts cur T l r p) (Return (Some (NotNode operand), c))"
    using inT bang by (intro handle_by_operations_unary [OF p]) (simp_all add: unary_operations_def)
  then show "yields (\<lambda>n. parse_expression_recursive n ts cur l r) (Return (Some (NotNode operand), c))"
    using bang by (intro first_of_lowest_tier_split [OF first p]) simp_all
next
  show "parse_expression (n + 60)
     (a\<lparr>get_token_type := NUMBER\<rparr> # b\<lparr>get_token_type := EQUAL_EQUAL\<rparr>
       # c3\<lparr>get_token_type := LEFT_PAREN\<rparr> # d\<lparr>get_token_type := NUMBER\<rparr>
       # e\<lparr>get_token_type := DIVIDE\<rparr> # f\<lparr>get_token_type := NUMBER\<rparr>
       # g\<lparr>get_token_type := RIGHT_PAREN\<rparr> # h\<lparr>get_token_type := MULTIPLY\<rparr>
       # i\<lparr>get_token_type := NUMBER\<rparr> # j\<lparr>get_token_type := SEMI_COLON\<rparr> # rest) 0
     = Return (Some (EqualsNode (NumberLiteralNode (get_literal a))
               (MultiplicationNode
                  (DivisionNode (NumberLiteralNode (get_literal d)) (NumberLiteralNode (get_literal f)))
                  (NumberLiteralNode (get_literal i)))), 9)"
    by (rule parse_expression_fuel [OF equality_of_product_example]) simp_all
qed

definition demo_precedence :: "int token list" where
  "demo_precedence =
    [\<lparr>get_token_type = NUMBER, get_lexeme = ''4'', get_literal = 4, get_line = 1\<rparr>,
     \<lparr>get_token_type = EQUAL_EQUAL, get_lexeme = ''=='', get_literal = 0, get_line = 1\<rparr>,
     \<lparr>get_token_type = LEFT_PAREN, get_lexeme = ''('', get_literal = 0, get_line = 1\<rparr>,
     \<lparr>get_token_type = NUMBER, get_lexeme = ''8'', get_literal = 8, get_line = 1\<rparr>,
     \<lparr>get_token_type = DIVIDE, get_lexeme = ''/'', get_literal = 0, get_line = 1\<rparr>,
     \<lparr>get_token_type = NUMBER, get_lexeme = ''2'', get_literal = 2, get_line = 1\<rparr>,
     \<lparr>get_token_type = RIGHT_PAREN, get_lexeme = '')'', get_literal = 0, get_line = 1\<rparr>,
     \<lparr>get_token_type = MULTIPLY, get_lexeme = ''*'', get_literal = 0, get_line = 1\<rparr>,
     \<lparr>get_token_type = NUMBER, get_lexeme = ''3'', get_literal = 3, get_line = 1\<rparr>,
     \<lparr>get_token_type = SEMI_COLON, get_lexeme = '';'', get_literal = 0, get_line = 1\<rparr>]"

lemmas scan_simps =
  scan_positions.simps scan_index_def skip_parentheses_def find_parenthesis_count_def
  find_parenthesis_count_while.simps retrieve_token_def Let_def

theorem split_at_first_of_lowest_tier_witness:
  "yields (\<lambda>n. parse_expression_recursive n demo_precedence 0 0 8)
     (Return (Some (EqualsNode (NumberLiteralNode 4)
        (MultiplicationNode (DivisionNode (NumberLiteralNode 8) (NumberLiteralNode 2))
           (NumberLiteralNode 3))), 0))
   \<and> yields (\<lambda>n. parse_expression_recursive n
        [\<lparr>get_token_type = BANG, get_lexeme = ''not'', get_literal = 0::int, get_line = 1\<rparr>,
         \<lparr>get_token_type = IDENTIFIER, get_lexeme = ''b'', get_literal = 0, get_line = 1\<rparr>] 0 0 1)
     (Return (Some (NotNode (VariableNode ''b'')), 0))"
proof (intro conjI)
  let ?cmp = "{EQUAL_EQUAL, BANG_EQUAL, LESS, LESS_EQUAL, GREATER, GREATER_EQUAL}"
  let ?mul = "{MULTIPLY, DIVIDE, MODULUS}"
  have four: "yields (\<lambda>n. parse_expression_recursive n demo_precedence 0 0 (1 - 1))
      (Return (Some (NumberLiteralNode 4), 0))"
    by (rule yieldsI [of _ 5]) (simp_all add: demo_precedence_def eval_simps eval_nat_numeral)
  have quotient: "yields (\<lambda>n. parse_expression_recursive n demo_precedence 0 2 (7 - 1))
      (Return (Some (DivisionNode (NumberLiteralNode 8) (NumberLiteralNode 2)), 0))"
    by (rule yieldsI [of _ 40]) (simp_all add: demo_precedence_def eval_simps eval_nat_numeral)
  have three: "yields (\<lambda>n. parse_expression_recursive n demo_precedence 0 (7 + 1) 8)
      (Return (Some (NumberLiteralNode 3), 0))"
    by (rule yieldsI [of _ 5]) (simp_all add: demo_precedence_def eval_simps eval_nat_numeral)
  have times: "first_of_lowest_tier demo_precedence 2 8 ?mul 7"
    by (rule first_of_lowest_tierI [where lower = "[{OR}, {AND}, ?cmp, {BANG}, {PLUS, MINUS}]"
          and higher = "[{EXPONENT}]" and before = "[]" and after = "[]"
          and ptok = "demo_precedence ! 7" and ltok = "demo_precedence ! 2"
          and rtok = "demo_precedence ! 8"])
       (simp_all add: demo_precedence_def tiers_lowest_first_def scan_simps)
  have product: "yields (\<lambda>n. parse_expression_recursive n demo_precedence 0 (1 + 1) 8)
      (Return (Some (MultiplicationNode (DivisionNode (NumberLiteralNode 8) (NumberLiteralNode 2))
           (NumberLiteralNode 3)), 0))"
    using split_at_first_of_lowest_tier [THEN conjunct1, rule_format, of demo_precedence 2 8 ?mul 7
        "demo_precedence ! 7" MultiplicationNode 0
        "DivisionNode (NumberLiteralNode 8) (NumberLiteralNode 2)" 0 "NumberLiteralNode 3" 0]
      times quotient three
    by (simp add: demo_precedence_def retrieve_token_def binary_operation_map_def)
  have equals: "first_of_lowest_tier demo_precedence 0 8 ?cmp 1"
    by (rule first_of_lowest_tierI [where lower = "[{OR}, {AND}]"
          and higher = "[{BANG}, {PLUS, MINUS}, ?mul, {EXPONENT}]" and before = "[0]" and after = "[7]"
          and ptok = "demo_precedence ! 1" and ltok = "demo_precedence ! 0"
          and rtok = "demo_precedence ! 8"])
       (simp_all add: demo_precedence_def tiers_lowest_first_def scan_simps)
  show "yields (\<lambda>n. parse_expression_recursive n demo_precedence 0 0 8)
     (Return (Some (EqualsNode (NumberLiteralNode 4)
        (MultiplicationNode (DivisionNode (NumberLiteralNode 8) (NumberLiteralNode 2))
           (NumberLiteralNode 3))), 0))"
    using split_at_first_of_lowest_tier [THEN conjunct1, rule_format, of demo_precedence 0 8 ?cmp 1
        "demo_precedence ! 1" EqualsNode 0 "NumberLiteralNode 4" 0
        "MultiplicationNode (DivisionNode (NumberLiteralNode 8) (NumberLiteralNode 2))
           (NumberLiteralNode 3)" 0]
      equals four product
    by (simp add: demo_precedence_def retrieve_token_def binary_operation_map_def)
next
  let ?ts = "[\<lparr>get_token_type = BANG, get_lexeme = ''not'', get_literal = 0::int, get_line = 1\<rparr>,
         \<lparr>get_token_type = IDENTIFIER, get_lexeme = ''b'', get_literal = 0, get_line = 1\<rparr>]"
  let ?cmp = "{EQUAL_EQUAL, BANG_EQUAL, LESS, LESS_EQUAL, GREATER, GREATER_EQUAL}"
  have b: "yields (\<lambda>n. parse_expression_recursive n ?ts 0 (0 + 1) 1)
      (Return (Some (VariableNode ''b''), 0))"
    by (rule yieldsI [of _ 5]) (simp_all add: eval_simps eval_nat_numeral)
  have first: "first_of_lowest_tier ?ts 0 1 {BANG} 0"
    by (rule first_of_lowest_tierI [where lower = "[{OR}, {AND}, ?cmp]"
          and higher = "[{PLUS, MINUS}, {MULTIPLY, DIVIDE, MODULUS}, {EXPONENT}]"
          and before = "[]" and after = "[]"
          and ptok = "?ts ! 0" and ltok = "?ts ! 0" and rtok = "?ts ! 1"])
       (simp_all add: tiers_lowest_first_def scan_simps)
  show "yields (\<lambda>n. parse_expression_recursive n ?ts 0 0 1)
     (Return (Some (NotNode (VariableNode ''b'')), 0))"
    using split_at_first_of_lowest_tier [THEN conjunct2, THEN conjunct1, rule_format,
        of ?ts 0 1 "{BANG}" 0 "?ts ! 0" 0 "VariableNode ''b''" 0]
      first b
    by (simp add: retrieve_token_def)
qed

section \<open>A logical not inside a range\<close>









section \<open>Chains of one binary operator\<close>

text \<open>A chain: an operand token, then pairs of an operator token and an operand token; and
  the tree grouped to the right over the leaves of its operands.\<close>

fun chain_tokens :: "'v token \<Rightarrow> ('v token \<times> 'v token) list \<Rightarrow> 'v token list" where
  "chain_tokens x [] = [x]"
| "chain_tokens x ((opr, y) # rest) = x # opr # chain_tokens y rest"

fun right_grouped ::
  "('v node \<Rightarrow> 'v node \<Rightarrow> 'v node) \<Rightarrow> 'v token \<Rightarrow> ('v token \<times> 'v token) list \<Rightarrow> 'v node" where
  "right_grouped mk x [] = operand_node x"
| "right_grouped mk x ((opr, y) # rest) = mk (operand_node x) (right_grouped mk y rest)"

lemma length_chain_tokens: "length (chain_tokens x rest) = 2 * length rest + 1"
  by (induction x rest rule: chain_tokens.induct) simp_all

lemma chain_tokens_kinds:
  assumes "get_token_type x \<in> valid_print_types"
    and "\<forall>(opr, y) \<in> set rest. get_token_type opr = k \<and> get_token_type y \<in> valid_print_types"
  shows "\<forall>t \<in> set (chain_tokens x rest). get_token_type t \<in> insert k valid_print_types"
  using assms by (induction x rest rule: chain_tokens.induct) auto

lemma retrieve_token_middle:
  assumes "int (length pre) \<le> q" "q < int (length pre) + int (length mid)"
  shows "retrieve_token (pre @ mid @ post) q = Return (mid ! nat (q - int (length pre)))"
proof -
  have "nat q = length pre + nat (q - int (length pre))"
    using assms by simp
  then have "(pre @ mid @ post) ! nat q = mid ! nat (q - int (length pre))"
    using assms by (simp add: nth_append)
  with assms show ?thesis
    by (simp add: retrieve_token_def Let_def)
qed

text \<open>C3. For every binary operator kind \<open>k\<close>, with node constructor \<open>mk\<close>, and every chain
  \<open>x k y1 k y2 ...\<close> of identifier or literal tokens joined by tokens of kind \<open>k\<close>, standing
  anywhere in a token list, the range parser returns the right-grouped tree
  \<open>mk x (mk y1 (mk y2 ...))\<close> and leaves the cursor alone: it splits at the leftmost
  operator and parses both sides. For \<^verbatim>\<open>a - b - c\<close> this is
  Subtraction(a, Subtraction(b, c)).\<close>

theorem chain_is_right_grouped:
  assumes "binary_operation_map k = Some mk" "get_token_type x \<in> valid_print_types"
    and "\<forall>(opr, y) \<in> set rest. get_token_type opr = k \<and> get_token_type y \<in> valid_print_types"
  shows "yields (\<lambda>n. parse_expression_recursive n (pre @ chain_tokens x rest @ post) cur
            (int (length pre)) (int (length pre) + 2 * int (length rest)))
          (Return (Some (right_grouped mk x rest), cur))"
  using assms(2,3)
proof (induction rest arbitrary: pre x)
  case Nil
  have "retrieve_token (pre @ chain_tokens x [] @ post) (int (length pre)) = Return x"
    using retrieve_token_middle [of pre "int (length pre)" "[x]" post] by simp
  from parse_expression_recursive_leaf [OF this Nil.prems(1), of cur] show ?case by simp
next
  case (Cons a rest)
  obtain opr y where a: "a = (opr, y)" by (cases a)
  define ts where "ts = pre @ chain_tokens x (a # rest) @ post"
  define l where "l = int (length pre)"
  define r where "r = l + 2 * int (length (a # rest))"
  let ?chain = "chain_tokens x (a # rest)"
  have len: "int (length ?chain) = r - l + 1"
    by (simp add: length_chain_tokens r_def)
  have at: "retrieve_token ts q = Return (?chain ! nat (q - l))" if "l \<le> q" "q \<le> r" for q
    unfolding ts_def l_def
    using that len by (intro retrieve_token_middle) (simp_all add: l_def)
  have kinds: "\<forall>t \<in> set ?chain. get_token_type t \<in> insert k valid_print_types"
    using Cons.prems by (intro chain_tokens_kinds) auto
  have kind_at: "\<exists>t. retrieve_token ts q = Return t \<and> get_token_type t \<in> insert k valid_print_types"
    if "l \<le> q" "q \<le> r" for q
  proof -
    have "nat (q - l) < length ?chain" using that len by simp
    then have "?chain ! nat (q - l) \<in> set ?chain" by (rule nth_mem)
    with kinds at [OF that] show ?thesis by blast
  qed
  have opr: "get_token_type opr = k" and y: "get_token_type y \<in> valid_print_types"
    and rest: "\<forall>(opr, y) \<in> set rest. get_token_type opr = k \<and> get_token_type y \<in> valid_print_types"
    using Cons.prems(2) a by auto
  have lr: "l + 2 \<le> r" by (simp add: r_def)
  have tl: "retrieve_token ts l = Return x"
    using at [of l] lr by (simp add: a)
  have top: "retrieve_token ts (l + 1) = Return opr"
    using at [of "l + 1"] lr by (simp add: a)
  from kind_at [of r] lr obtain rtok where tr: "retrieve_token ts r = Return rtok" by auto
  have not_paren: "LEFT_PAREN \<notin> insert k valid_print_types"
    using binary_kind_facts(5) [OF assms(1)] by (auto simp: valid_print_types_def literal_types_def)
  have scan: "scan_positions ts r l = Return [l..r - 1]"
  proof (rule scan_positions_plain, intro allI impI)
    fix q assume "l \<le> q \<and> q < r"
    with kind_at [of q] not_paren
    show "\<exists>t. retrieve_token ts q = Return t \<and> get_token_type t \<noteq> LEFT_PAREN"
      by auto
  qed
  have "[l..r - 1] = l # [l + 1..r - 1]"
    using lr by (intro upto_rec1) simp
  moreover have "[l + 1..r - 1] = (l + 1) # [l + 1 + 1..r - 1]"
    using lr by (intro upto_rec1) simp
  ultimately have split: "[l..r - 1] = [l] @ (l + 1) # [l + 2..r - 1]"
    by (simp add: add.assoc)
  have nested: "is_nested_parens ts l r = Return False"
    using tl tr Cons.prems(1)
    by (auto simp: is_nested_parens_def within_parens_def valid_print_types_def literal_types_def)
  from tier_of_operation [OF binary_kind_in_tier [OF assms(1)]]
  obtain Ts1 T Ts2 where tiers: "operator_precedence = Ts1 @ T # Ts2" and kT: "k \<in> T"
    and before: "\<forall>S \<in> set Ts1. k \<notin> S"
    by blast
  have sub: "S \<subseteq> operation_types" if "S \<in> set operator_precedence" for S
    using that tiers_are_operations by blast
  have disjoint: "valid_print_types \<inter> operation_types = {}"
    by (auto simp: valid_print_types_def literal_types_def operation_types_def)
  have none: "yields (\<lambda>n. while_index n ts cur S l r l) (Return (None, cur))" if "S \<in> set Ts1" for S
  proof (rule while_index_scan_none [OF scan], intro ballI)
    fix q assume "q \<in> set [l..r - 1]"
    then have "l \<le> q" "q \<le> r" by auto
    from kind_at [OF this] obtain t where
      t: "retrieve_token ts q = Return t" "get_token_type t \<in> insert k valid_print_types" by auto
    have "S \<in> set operator_precedence" using that by (simp add: tiers)
    then have "S \<subseteq> operation_types" by (rule sub)
    with t(2) before that disjoint have "get_token_type t \<notin> S" by auto
    with t(1) show "\<exists>t. retrieve_token ts q = Return t \<and> get_token_type t \<notin> S" by blast
  qed
  let ?v = "Return (Some (right_grouped mk x (a # rest)), cur)"
  have left: "yields (\<lambda>n. parse_expression_recursive n ts cur l (l + 1 - 1))
      (Return (Some (operand_node x), cur))"
    using parse_expression_recursive_leaf [OF tl Cons.prems(1), of cur] by simp
  have e1: "(pre @ [x, opr]) @ chain_tokens y rest @ post = ts"
    by (simp add: ts_def a)
  have e2: "int (length (pre @ [x, opr])) = l + 1 + 1"
    by (simp add: l_def)
  have e3: "l + 1 + 1 + 2 * int (length rest) = r"
    by (simp add: r_def)
  have right: "yields (\<lambda>n. parse_expression_recursive n ts cur (l + 1 + 1) r)
      (Return (Some (right_grouped mk y rest), cur))"
    using Cons.IH [OF y rest, of "pre @ [x, opr]"] unfolding e1 e2 e3 .
  have "yields (\<lambda>n. handle_binary_operation n ts cur l (l + 1) r)
      (Return (Some (mk (operand_node x) (right_grouped mk y rest)), cur))"
    using assms(1) opr by (intro handle_binary_operation_node [OF top _ left right]) simp
  then have hbo: "yields (\<lambda>n. handle_by_operations n ts cur T l r (l + 1)) ?v"
    using kT opr binary_kind_facts(4) [OF assms(1)]
    by (intro handle_by_operations_binary [OF top]) (simp_all add: a)
  have "yields (\<lambda>n. while_index n ts cur T l r l) ?v"
  proof (rule while_index_scan_hit [OF scan [unfolded split] _ hbo])
    have "T \<in> set operator_precedence" by (simp add: tiers)
    then have "T \<subseteq> operation_types" by (rule sub)
    with Cons.prems(1) disjoint have "get_token_type x \<notin> T" by auto
    with tl show "\<forall>q \<in> set [l]. \<exists>t. retrieve_token ts q = Return t \<and> get_token_type t \<notin> T"
      by simp
  qed simp
  then have "yields (\<lambda>n. for_operators n ts cur operator_precedence l r) ?v"
    unfolding tiers by (intro for_operators_search none) auto
  with tl tr lr nested have "yields (\<lambda>n. parse_expression_recursive n ts cur l r) ?v"
    by (intro parse_expression_recursive_search) auto
  then show ?case by (simp add: ts_def l_def r_def)
qed

theorem chain_is_right_grouped_witness:
  "yields (\<lambda>n. parse_expression_recursive n
       [\<lparr>get_token_type = PRINT, get_lexeme = ''print'', get_literal = (), get_line = 1\<rparr>,
        \<lparr>get_token_type = IDENTIFIER, get_lexeme = ''a'', get_literal = (), get_line = 1\<rparr>,
        \<lparr>get_token_type = MINUS, get_lexeme = ''-'', get_literal = (), get_line = 1\<rparr>,
        \<lparr>get_token_type = IDENTIFIER, get_lexeme = ''b'', get_literal = (), get_line = 1\<rparr>,
        \<lparr>get_token_type = MINUS, get_lexeme = ''-'', get_literal = (), get_line = 1\<rparr>,
        \<lparr>get_token_type = IDENTIFIER, get_lexeme = ''c'', get_literal = (), get_line = 1\<rparr>,
        \<lparr>get_token_type = SEMI_COLON, get_lexeme = '';'', get_literal = (), get_line = 1\<rparr>] 1 1 5)
     (Return (Some (SubtractionNode (VariableNode ''a'')
                (SubtractionNode (VariableNode ''b'') (VariableNode ''c''))), 1))"
  using chain_is_right_grouped [of MINUS SubtractionNode
      "\<lparr>get_token_type = IDENTIFIER, get_lexeme = ''a'', get_literal = (), get_line = 1\<rparr>"
      "[(\<lparr>get_token_type = MINUS, get_lexeme = ''-'', get_literal = (), get_line = 1\<rparr>,
         \<lparr>get_token_type = IDENTIFIER, get_lexeme = ''b'', get_literal = (), get_line = 1\<rparr>),
        (\<lparr>get_token_type = MINUS, get_lexeme = ''-'', get_literal = (), get_line = 1\<rparr>,
         \<lparr>get_token_type = IDENTIFIER, get_lexeme = ''c'', get_literal = (), get_line = 1\<rparr>)]"
      "[\<lparr>get_token_type = PRINT, get_lexeme = ''print'', get_literal = (), get_line = 1\<rparr>]"
      "[\<lparr>get_token_type = SEMI_COLON, get_lexeme = '';'', get_literal = (), get_line = 1\<rparr>]" 1]
  by (simp add: binary_operation_map_def valid_print_types_def operand_node_def)

end
